theory Spec2Isabelle
  imports Main "HOL-Library.Multiset"
begin

section \<open>The data of package state\<close>

text \<open>
  The development follows \<^verbatim>\<open>internal/state/cluster.go\<close> and the list handler of
  \<^verbatim>\<open>cmd/kubespan-manager/main.go\<close>. Go pointers are addresses (\<open>ref\<close>), a
  \<^verbatim>\<open>time.Time\<close> is an instant on the integer line. The two mutexes of a Cluster are
  not part of the state: every method below is one critical section, run from its
  \<^verbatim>\<open>Lock\<close> to its deferred \<^verbatim>\<open>Unlock\<close> without interleaving.
\<close>

type_synonym ref = nat
type_synonym time = int

text \<open>
  Modelled from the spec: the Endpoint type (its declaration is not in the source tree).
  An address record is either a literal network address or a symbolic name.
\<close>

datatype Endpoint = Address string | Name string

text \<open>
  Modelled from the spec: the Affiliate type (its declaration is not in the source tree):
  identity, the known endpoints, the timestamp of the last mutation and the dirty flag
  that \<^verbatim>\<open>ClearChanged\<close> and \<^verbatim>\<open>IsChanged\<close> access.
\<close>

record Affiliate =
  id_affiliate :: string
  endpoints :: "Endpoint list"
  lastUpdated :: time
  changed :: bool

text \<open>
  Modelled from the spec: the AffiliateExport type (its declaration is not in the source
  tree): the exported view of an affiliate, identifier and endpoint set, a copy that shares
  nothing with the affiliate.
\<close>

record AffiliateExport =
  ID :: string
  Endpoints :: "Endpoint list"

text \<open>
  Modelled from the spec: the Notification type (its declaration is not in the source
  tree; the two fields are the ones \<^verbatim>\<open>cluster.go\<close> fills in). An absent
  \<open>Affiliate\<close> field (Go's nil) is the deletion shape.
\<close>

record Notification =
  AffiliateID :: string
  Affiliate :: "AffiliateExport option"

text \<open>
  Go's \<^verbatim>\<open>error\<close> values: the sentinel \<^verbatim>\<open>db.ErrNotFound\<close>, any other error with its
  message, and an error wrapped with \<^verbatim>\<open>%w\<close>.
\<close>

datatype error = ErrNotFound | ErrOther string | Wrapped string error

text \<open>A buffered channel as \<^verbatim>\<open>make(chan T, n)\<close> returns it: its capacity and its queue.\<close>

record 'a chan =
  capacity :: nat
  queue :: "'a list"

definition make_chan :: "nat \<Rightarrow> 'a chan" where
  "make_chan n = \<lparr>capacity = n, queue = []\<rparr>"

text \<open>
  Modelled from the spec: the Subscription type (its declaration is not in the source
  tree; the three fields are the ones \<^verbatim>\<open>Subscribe\<close> fills in): the back-reference to
  the cluster, the error channel and the delivery channel of the watcher.
\<close>

record Subscription =
  cluster :: ref
  errCh :: "error chan"
  ch :: ref

text \<open>
  The Cluster struct without its mutexes. The map holds pointers to affiliates that only
  the map refers to, so an affiliate is stored under its key by value and a mutation
  through the pointer is an update of the entry. Subscriptions are compared by address,
  so the slice holds addresses; the objects live in a store.
\<close>

record Cluster =
  affiliates :: "string \<rightharpoonup> Affiliate"
  id_cluster :: string
  subscriptions :: "ref list"

text \<open>The store of Subscription objects: the address of an object is its index.\<close>

type_synonym store = "Subscription list"

definition deref :: "store \<Rightarrow> ref \<Rightarrow> Subscription option" where
  "deref h p = (if p < length h then Some (h ! p) else None)"

definition alloc :: "store \<Rightarrow> Subscription \<Rightarrow> ref \<times> store" where
  "alloc h s = (length h, h @ [s])"

text \<open>
  What a method does to the outside: the notifications handed to \<^verbatim>\<open>Cluster.notify\<close>, in
  order, and the calls \<^verbatim>\<open>subscription.notify(notification)\<close> made, in order, each as the
  address of the subscription and the notification.
\<close>

type_synonym delivery = "ref \<times> Notification"
type_synonym log = "Notification list \<times> delivery list"

definition no_log :: log where
  "no_log = ([], [])"

definition log_append :: "log \<Rightarrow> log \<Rightarrow> log" where
  "log_append l1 l2 = (fst l1 @ fst l2, snd l1 @ snd l2)"

abbreviation emitted :: "log \<Rightarrow> Notification list" where
  "emitted l \<equiv> fst l"

abbreviation delivered :: "log \<Rightarrow> delivery list" where
  "delivered l \<equiv> snd l"

subsection \<open>The methods of Affiliate that Cluster calls\<close>

text \<open>Modelled from the spec: \<^verbatim>\<open>NewAffiliate\<close>, a new record with the identity and nothing else.\<close>

definition NewAffiliate :: "string \<Rightarrow> Affiliate" where
  "NewAffiliate i = \<lparr>id_affiliate = i, endpoints = [], lastUpdated = 0, changed = False\<rparr>"

text \<open>Modelled from the spec: \<^verbatim>\<open>ClearChanged\<close> clears the dirty flag.\<close>

definition ClearChanged :: "Affiliate \<Rightarrow> Affiliate" where
  "ClearChanged a = a\<lparr>changed := False\<rparr>"

text \<open>Modelled from the spec: \<^verbatim>\<open>IsChanged\<close> reads the dirty flag.\<close>

definition IsChanged :: "Affiliate \<Rightarrow> bool" where
  "IsChanged a = changed a"

text \<open>Modelled from the spec: \<^verbatim>\<open>Export\<close> copies identifier and endpoints.\<close>

definition Export :: "Affiliate \<Rightarrow> AffiliateExport" where
  "Export a = \<lparr>ID = id_affiliate a, Endpoints = endpoints a\<rparr>"

text \<open>
  \<^verbatim>\<open>Affiliate.GarbageCollect\<close> is a parameter of the cluster's sweep: a function of the
  time and the affiliate that returns \<open>(remove, changed)\<close> and the affiliate as the call
  leaves it (the receiver is a pointer).
\<close>

type_synonym affiliate_gc = "time \<Rightarrow> Affiliate \<Rightarrow> (bool \<times> bool) \<times> Affiliate"

text \<open>
  Modelled from the spec: \<^verbatim>\<open>Affiliate.GarbageCollect\<close> with the expiry threshold \<open>ttl\<close>:
  the affiliate is to be removed when its last update is older than the threshold, and
  the removal is the change of visible state.
\<close>

definition Affiliate_GarbageCollect :: "time \<Rightarrow> affiliate_gc" where
  "Affiliate_GarbageCollect ttl now a =
     ((ttl < now - lastUpdated a, ttl < now - lastUpdated a), a)"

section \<open>Cluster\<close>

definition NewCluster :: "string \<Rightarrow> Cluster" where
  "NewCluster i = \<lparr>affiliates = Map.empty, id_cluster = i, subscriptions = []\<rparr>"

subsection \<open>notify\<close>

text \<open>
  Modelled from the spec: \<^verbatim>\<open>Subscription.notify\<close> (not in the source tree) attempts a
  send on the channel of the subscription and signals a failure on its error channel;
  whether the send succeeds depends on the reader of the channel. It changes neither the
  map nor the slice of the cluster. The model records the call: which subscription is
  handed which notification.
\<close>

definition Subscription_notify :: "ref \<Rightarrow> Notification \<Rightarrow> delivery" where
  "Subscription_notify subscription notification = (subscription, notification)"

text \<open>
  The inner loop over the copied subscriptions and the outer loop over the notifications.
\<close>

fun notify_subscriptions :: "ref list \<Rightarrow> Notification \<Rightarrow> delivery list" where
  "notify_subscriptions [] notification = []"
| "notify_subscriptions (subscription # rest) notification =
     Subscription_notify subscription notification # notify_subscriptions rest notification"

fun notify_loop :: "ref list \<Rightarrow> Notification list \<Rightarrow> delivery list" where
  "notify_loop subs [] = []"
| "notify_loop subs (notification # rest) =
     notify_subscriptions subs notification @ notify_loop subs rest"

definition notify :: "Cluster \<Rightarrow> Notification list \<Rightarrow> Cluster \<times> log" where
  "notify c notifications =
     (let subs = [] @ subscriptions c
      in (c, (notifications, notify_loop subs notifications)))"

subsection \<open>WithAffiliate and DeleteAffiliate\<close>

definition WithAffiliate :: "string \<Rightarrow> (Affiliate \<Rightarrow> Affiliate) \<Rightarrow> Cluster \<Rightarrow> Cluster \<times> log" where
  "WithAffiliate i f c =
     (case affiliates c i of
        Some affiliate \<Rightarrow>
          (let affiliate = ClearChanged affiliate;
               affiliate = f affiliate;
               c = c\<lparr>affiliates := (affiliates c)(i \<mapsto> affiliate)\<rparr>
           in if IsChanged affiliate
              then notify c [\<lparr>AffiliateID = i, Affiliate = Some (Export affiliate)\<rparr>]
              else (c, no_log))
      | None \<Rightarrow>
          (let affiliate = NewAffiliate i;
               affiliate = f affiliate;
               c = c\<lparr>affiliates := (affiliates c)(i \<mapsto> affiliate)\<rparr>
           in notify c [\<lparr>AffiliateID = i, Affiliate = Some (Export affiliate)\<rparr>]))"

definition DeleteAffiliate :: "string \<Rightarrow> Cluster \<Rightarrow> Cluster \<times> log" where
  "DeleteAffiliate i c =
     (case affiliates c i of
        Some _ \<Rightarrow>
          (let c = c\<lparr>affiliates := (affiliates c)(i := None)\<rparr>
           in notify c [\<lparr>AffiliateID = i, Affiliate = None\<rparr>])
      | None \<Rightarrow> (c, no_log))"

subsection \<open>List and Subscribe\<close>

text \<open>
  Go visits the keys of a map in an order of its choosing, each key once. The order is an
  argument \<open>ks\<close> of every method that ranges over the map, and \<open>range_order\<close> says that
  \<open>ks\<close> is such an order for the map. A key without an entry is not visited.
\<close>

definition range_order :: "('k \<rightharpoonup> 'v) \<Rightarrow> 'k list \<Rightarrow> bool" where
  "range_order m ks = (distinct ks \<and> set ks = dom m)"

fun List_loop :: "(string \<rightharpoonup> Affiliate) \<Rightarrow> string list \<Rightarrow> AffiliateExport list \<Rightarrow> AffiliateExport list" where
  "List_loop m [] result = result"
| "List_loop m (k # ks) result =
     (case m k of
        None \<Rightarrow> List_loop m ks result
      | Some affiliate \<Rightarrow> List_loop m ks (result @ [Export affiliate]))"

definition List :: "string list \<Rightarrow> Cluster \<Rightarrow> AffiliateExport list" where
  "List ks c = List_loop (affiliates c) ks []"

fun Subscribe_loop :: "(string \<rightharpoonup> Affiliate) \<Rightarrow> string list \<Rightarrow> AffiliateExport list \<Rightarrow> AffiliateExport list" where
  "Subscribe_loop m [] snapshot = snapshot"
| "Subscribe_loop m (k # ks) snapshot =
     (case m k of
        None \<Rightarrow> Subscribe_loop m ks snapshot
      | Some affiliate \<Rightarrow> Subscribe_loop m ks (snapshot @ [Export affiliate]))"

text \<open>
  \<open>this\<close> is the receiver, the address of the cluster, which the new subscription keeps;
  \<open>ch\<close> is the channel of the caller. The result is the snapshot, the address of the new
  subscription, the store and the cluster.
\<close>

definition Subscribe :: "ref \<Rightarrow> string list \<Rightarrow> ref \<Rightarrow> store \<Rightarrow> Cluster \<Rightarrow>
    (AffiliateExport list \<times> ref) \<times> store \<times> Cluster" where
  "Subscribe this ks c_h h c =
     (let snapshot = Subscribe_loop (affiliates c) ks [];
          (subscription, h) = alloc h \<lparr>cluster = this, errCh = make_chan 1, ch = c_h\<rparr>;
          c = c\<lparr>subscriptions := subscriptions c @ [subscription]\<rparr>
      in ((snapshot, subscription), h, c))"

subsection \<open>unsubscribe\<close>

text \<open>
  The loop over the indices: at the first index that holds the subscription, the last
  element is moved there and the slice loses its last slot (the nil stored in that slot
  before is in the part of the array that the shorter slice no longer shows).
\<close>

function unsubscribe_loop :: "ref list \<Rightarrow> ref \<Rightarrow> nat \<Rightarrow> ref list" where
  "unsubscribe_loop subs subscription i =
     (if i < length subs
      then (if subs ! i = subscription
            then take (length subs - 1) (subs[i := subs ! (length subs - 1)])
            else unsubscribe_loop subs subscription (i + 1))
      else subs)"
  by pat_completeness auto
termination
  by (relation "measure (\<lambda>(subs, subscription, i). length subs - i)") auto

declare unsubscribe_loop.simps [simp del]

definition unsubscribe :: "ref \<Rightarrow> Cluster \<Rightarrow> Cluster" where
  "unsubscribe subscription c =
     c\<lparr>subscriptions := unsubscribe_loop (subscriptions c) subscription 0\<rparr>"

subsection \<open>GarbageCollect\<close>

text \<open>
  The sweep over the map in the order \<open>ids\<close>. The call of the affiliate's own
  \<^verbatim>\<open>GarbageCollect\<close> acts on the entry through its pointer; the entry is deleted when
  \<open>remove\<close> is set; the notification is sent when \<open>changed\<close> (here \<open>changed'\<close>) is set.
\<close>

fun GarbageCollect_loop :: "affiliate_gc \<Rightarrow> time \<Rightarrow> string list \<Rightarrow> Cluster \<Rightarrow> Cluster \<times> log" where
  "GarbageCollect_loop agc now [] c = (c, no_log)"
| "GarbageCollect_loop agc now (i # ids) c =
     (case affiliates c i of
        None \<Rightarrow> GarbageCollect_loop agc now ids c
      | Some affiliate \<Rightarrow>
          (case agc now affiliate of
             ((remove, changed'), affiliate') \<Rightarrow>
               (let c1 = c\<lparr>affiliates := (affiliates c)(i \<mapsto> affiliate')\<rparr>;
                    c2 = (if remove then c1\<lparr>affiliates := (affiliates c1)(i := None)\<rparr> else c1);
                    (c3, l1) = (if changed'
                                then notify c2 [\<lparr>AffiliateID = i, Affiliate = None\<rparr>]
                                else (c2, no_log));
                    (c4, l2) = GarbageCollect_loop agc now ids c3
                in (c4, log_append l1 l2))))"

definition GarbageCollect :: "affiliate_gc \<Rightarrow> time \<Rightarrow> string list \<Rightarrow> Cluster \<Rightarrow> bool \<times> Cluster \<times> log" where
  "GarbageCollect agc now ks c =
     (let (c, l) = GarbageCollect_loop agc now ks c
      in (dom (affiliates c) = {}, c, l))"

subsection \<open>Reading the result of the affiliate's GarbageCollect\<close>

text \<open>
  The three parts of a result of \<^verbatim>\<open>Affiliate.GarbageCollect\<close>, the notification that
  stands for a deletion, what the sweep does to one entry of the map and whether it
  sends a notification for it.
\<close>

definition gc_remove :: "affiliate_gc \<Rightarrow> time \<Rightarrow> Affiliate \<Rightarrow> bool" where
  "gc_remove agc now a = fst (fst (agc now a))"

definition gc_changed :: "affiliate_gc \<Rightarrow> time \<Rightarrow> Affiliate \<Rightarrow> bool" where
  "gc_changed agc now a = snd (fst (agc now a))"

definition gc_after :: "affiliate_gc \<Rightarrow> time \<Rightarrow> Affiliate \<Rightarrow> Affiliate" where
  "gc_after agc now a = snd (agc now a)"

definition deletion :: "string \<Rightarrow> Notification" where
  "deletion i = \<lparr>AffiliateID = i, Affiliate = None\<rparr>"

definition gc_entry :: "affiliate_gc \<Rightarrow> time \<Rightarrow> Affiliate option \<Rightarrow> Affiliate option" where
  "gc_entry agc now e =
     (case e of None \<Rightarrow> None
      | Some a \<Rightarrow> if gc_remove agc now a then None else Some (gc_after agc now a))"

definition gc_notified :: "affiliate_gc \<Rightarrow> time \<Rightarrow> Affiliate option \<Rightarrow> bool" where
  "gc_notified agc now e = (case e of None \<Rightarrow> False | Some a \<Rightarrow> gc_changed agc now a)"

section \<open>The list handler of the HTTP boundary\<close>

text \<open>
  \<^verbatim>\<open>uuid.Parse\<close> belongs to a library and \<^verbatim>\<open>nodeDB.List\<close> to a package that is not in the
  source tree: both are parameters. The parser returns its error, if any; the store
  returns the nodes and its error, if any. The handler's result is the response it sends
  and the calls of the store it made. Logging is left out.
\<close>

fun errors_Is :: "error \<Rightarrow> error \<Rightarrow> bool" where
  "errors_Is (Wrapped msg e) target = (Wrapped msg e = target \<or> errors_Is e target)"
| "errors_Is e target = (e = target)"

definition StatusBadRequest :: nat where "StatusBadRequest = 400"
definition StatusNotFound :: nat where "StatusNotFound = 404"
definition StatusInternalServerError :: nat where "StatusInternalServerError = 500"

datatype 'n response = SendStatus nat | JSON "'n list"

datatype db_call = DB_List string

definition validateClusterID :: "(string \<Rightarrow> error option) \<Rightarrow> string \<Rightarrow> error option" where
  "validateClusterID uuid_Parse cl =
     (case uuid_Parse cl of
        Some err \<Rightarrow> Some (Wrapped ''cluster ID is not a valid UUID'' err)
      | None \<Rightarrow> None)"

definition get_cluster :: "(string \<Rightarrow> error option) \<Rightarrow> (string \<Rightarrow> 'n list \<times> error option) \<Rightarrow>
    string \<Rightarrow> 'n response \<times> db_call list" where
  "get_cluster uuid_Parse nodeDB_List cl =
     (if cl = [] then (SendStatus StatusBadRequest, [])
      else (case validateClusterID uuid_Parse cl of
              Some e \<Rightarrow> (SendStatus StatusBadRequest, [])
            | None \<Rightarrow>
                (case nodeDB_List cl of
                   (list, Some e) \<Rightarrow>
                     (if errors_Is e ErrNotFound
                      then (SendStatus StatusNotFound, [DB_List cl])
                      else (SendStatus StatusInternalServerError, [DB_List cl]))
                 | (list, None) \<Rightarrow> (JSON list, [DB_List cl]))))"

section \<open>Example states\<close>

text \<open>
  A cluster with two affiliates and two subscriptions, and a mutation that adds an
  endpoint and marks the affiliate as changed. The theorems below are instantiated at
  these values.
\<close>

definition a0 :: Affiliate where
  "a0 = \<lparr>id_affiliate = ''a'', endpoints = [Address ''10.0.0.1''], lastUpdated = 5, changed = True\<rparr>"

definition c0 :: Cluster where
  "c0 = \<lparr>affiliates = [''a'' \<mapsto> a0, ''b'' \<mapsto> NewAffiliate ''b''],
          id_cluster = ''c'', subscriptions = [0, 1]\<rparr>"

definition touch :: "Affiliate \<Rightarrow> Affiliate" where
  "touch a = a\<lparr>endpoints := endpoints a @ [Name ''n''], changed := True\<rparr>"

text \<open>
  An \<^verbatim>\<open>Affiliate.GarbageCollect\<close> that removes an affiliate last updated before \<open>now\<close>
  and otherwise drops the endpoints of an affiliate that has some, which it reports as
  a change.
\<close>

definition agc_drop :: affiliate_gc where
  "agc_drop now a =
     (if lastUpdated a < now then ((True, True), a)
      else if endpoints a \<noteq> [] then ((False, True), a\<lparr>endpoints := []\<rparr>)
      else ((False, False), a))"

text \<open>A cluster with three subscriptions and no affiliate.\<close>

definition c1 :: Cluster where
  "c1 = \<lparr>affiliates = Map.empty, id_cluster = ''c'', subscriptions = [4, 7, 9]\<rparr>"

text \<open>A store with the two subscription objects of \<open>c0\<close>; the cluster is at address 100.\<close>

definition h0 :: store where
  "h0 = [\<lparr>cluster = 100, errCh = make_chan 1, ch = 5\<rparr>,
         \<lparr>cluster = 100, errCh = make_chan 1, ch = 6\<rparr>]"

text \<open>
  A parser that accepts the strings of 36 characters, and a store that knows one cluster.
\<close>

definition uuid_Parse0 :: "string \<Rightarrow> error option" where
  "uuid_Parse0 s = (if length s = 36 then None else Some (ErrOther ''invalid UUID length''))"

definition nodeDB_List0 :: "string \<Rightarrow> string list \<times> error option" where
  "nodeDB_List0 cl =
     (if cl = ''123e4567-e89b-12d3-a456-426614174000'' then ([''node1''], None)
      else ([], Some (Wrapped ''list'' ErrNotFound)))"

section \<open>The invariant of the subscription slice\<close>

text \<open>
  The subscriptions of a cluster are distinct addresses of objects in the store:
  \<^verbatim>\<open>Subscribe\<close> is the only method that adds one, and it adds the address of an
  object it has just allocated.
\<close>

definition subscriptions_ok :: "store \<Rightarrow> Cluster \<Rightarrow> bool" where
  "subscriptions_ok h c =
     (distinct (subscriptions c) \<and> list_all (\<lambda>p. deref h p \<noteq> None) (subscriptions c))"

text \<open>
  The states that the methods reach from a new cluster, with the store at each point;
  the store may also grow by the subscriptions of other clusters.
\<close>

inductive reachable :: "store \<Rightarrow> Cluster \<Rightarrow> bool" where
  r_new: "reachable h (NewCluster i)"
| r_with: "reachable h c \<Longrightarrow> reachable h (fst (WithAffiliate i f c))"
| r_delete: "reachable h c \<Longrightarrow> reachable h (fst (DeleteAffiliate i c))"
| r_subscribe: "reachable h c \<Longrightarrow>
    reachable (fst (snd (Subscribe this ks c_h h c))) (snd (snd (Subscribe this ks c_h h c)))"
| r_unsubscribe: "reachable h c \<Longrightarrow> reachable h (unsubscribe s c)"
| r_gc: "reachable h c \<Longrightarrow> reachable h (fst (snd (GarbageCollect agc now ks c)))"
| r_notify: "reachable h c \<Longrightarrow> reachable h (fst (notify c ns))"
| r_alloc: "reachable h c \<Longrightarrow> reachable (snd (alloc h s)) c"

section \<open>Properties of notify\<close>

lemma notify_subscriptions_map:
  "notify_subscriptions subs n = map (\<lambda>s. (s, n)) subs"
  by (induction subs) (simp_all add: Subscription_notify_def)

lemma notify_loop_concat:
  "notify_loop subs ns = concat (map (\<lambda>n. map (\<lambda>s. (s, n)) subs) ns)"
  by (induction ns) (simp_all add: notify_subscriptions_map)

lemma notify_eq:
  "notify c ns = (c, (ns, concat (map (\<lambda>n. map (\<lambda>s. (s, n)) (subscriptions c)) ns)))"
  by (simp add: notify_def notify_loop_concat)

lemma filter_eq_distinct:
  "distinct xs \<Longrightarrow> x \<in> set xs \<Longrightarrow> filter (\<lambda>y. y = x) xs = [x]"
  by (induction xs) (auto simp: filter_empty_conv)

lemma deliveries_to:
  "map snd (filter (\<lambda>d. fst d = s) (concat (map (\<lambda>n. map (\<lambda>s. (s, n)) subs) ns))) =
     concat (map (\<lambda>n. replicate (length (filter (\<lambda>y. y = s) subs)) n) ns)"
proof (induction ns)
  case Nil
  show ?case by simp
next
  case (Cons n ns)
  have "map snd (filter (\<lambda>d. fst d = s) (map (\<lambda>s. (s, n)) subs)) =
        replicate (length (filter (\<lambda>y. y = s) subs)) n"
    by (induction subs) simp_all
  with Cons show ?case by simp
qed

lemma deliveries_to_distinct:
  assumes "distinct subs" and "s \<in> set subs"
  shows "map snd (filter (\<lambda>d. fst d = s) (concat (map (\<lambda>n. map (\<lambda>s. (s, n)) subs) ns))) = ns"
proof -
  have "concat (map (\<lambda>n. replicate (Suc 0) n) ns) = ns"
    by (induction ns) simp_all
  then show ?thesis
    by (simp add: deliveries_to filter_eq_distinct [OF assms])
qed

lemma deliveries_from:
  "fst ` set (concat (map (\<lambda>n. map (\<lambda>s. (s, n)) subs) ns)) \<subseteq> set subs"
  by auto

text \<open>
  Claim C10. \<^verbatim>\<open>notify\<close> returns the cluster as it was, map and subscriptions alike. Its
  deliveries are, for each notification in the order supplied, one call for each
  subscription of the slice in the order of the slice; so a subscription of a slice with
  distinct entries receives exactly the notifications supplied, in their order, and
  nothing is delivered to an address outside the slice.
\<close>

theorem notify_frame:
  "fst (notify c ns) = c
   \<and> emitted (snd (notify c ns)) = ns
   \<and> delivered (snd (notify c ns)) = concat (map (\<lambda>n. map (\<lambda>s. (s, n)) (subscriptions c)) ns)
   \<and> (distinct (subscriptions c) \<longrightarrow>
        (\<forall>s \<in> set (subscriptions c).
           map snd (filter (\<lambda>d. fst d = s) (delivered (snd (notify c ns)))) = ns))
   \<and> fst ` set (delivered (snd (notify c ns))) \<subseteq> set (subscriptions c)"
  using deliveries_from [of "subscriptions c" ns]
  by (simp add: notify_eq deliveries_to_distinct)

theorem notify_frame_witness:
  "distinct (subscriptions c0)
   \<and> 1 \<in> set (subscriptions c0)
   \<and> fst (notify c0 [deletion ''a'', deletion ''b'']) = c0
   \<and> delivered (snd (notify c0 [deletion ''a'', deletion ''b''])) =
       [(0, deletion ''a''), (1, deletion ''a''), (0, deletion ''b''), (1, deletion ''b'')]
   \<and> map snd (filter (\<lambda>d. fst d = 1) (delivered (snd (notify c0 [deletion ''a'', deletion ''b''])))) =
       [deletion ''a'', deletion ''b'']"
proof -
  have d: "distinct (subscriptions c0)" and m: "1 \<in> set (subscriptions c0)"
    and subs: "subscriptions c0 = [0, 1]"
    by (simp_all add: c0_def)
  note t = notify_frame [of c0 "[deletion ''a'', deletion ''b'']"]
  from t d m have "map snd (filter (\<lambda>d. fst d = 1)
      (delivered (snd (notify c0 [deletion ''a'', deletion ''b''])))) = [deletion ''a'', deletion ''b'']"
    by blast
  moreover from t have "fst (notify c0 [deletion ''a'', deletion ''b'']) = c0" by blast
  moreover from t have "delivered (snd (notify c0 [deletion ''a'', deletion ''b''])) =
      concat (map (\<lambda>n. map (\<lambda>s. (s, n)) (subscriptions c0)) [deletion ''a'', deletion ''b''])"
    by blast
  ultimately show ?thesis using d m by (simp add: subs)
qed

section \<open>Properties of WithAffiliate\<close>

text \<open>
  Claim C1. \<^verbatim>\<open>WithAffiliate(id, f)\<close> on a present id clears the affiliate's changed flag,
  applies \<open>f\<close>, keeps the result under the id, and hands one notification with the new
  export to \<^verbatim>\<open>notify\<close> exactly when the flag is set after \<open>f\<close>, none otherwise. On an
  absent id it applies \<open>f\<close> to a new affiliate with that id, inserts the result and hands
  one notification with its export to \<^verbatim>\<open>notify\<close> whatever \<open>f\<close> does. Each notification
  goes to every subscription of the cluster.
\<close>

theorem WithAffiliate_spec:
  "case affiliates c i of
     Some a \<Rightarrow>
       (let a' = f (a\<lparr>changed := False\<rparr>);
            n = \<lparr>AffiliateID = i, Affiliate = Some (Export a')\<rparr>
        in fst (WithAffiliate i f c) = c\<lparr>affiliates := (affiliates c)(i \<mapsto> a')\<rparr>
           \<and> emitted (snd (WithAffiliate i f c)) = (if changed a' then [n] else [])
           \<and> delivered (snd (WithAffiliate i f c)) =
               (if changed a' then map (\<lambda>s. (s, n)) (subscriptions c) else []))
   | None \<Rightarrow>
       (let a' = f (NewAffiliate i);
            n = \<lparr>AffiliateID = i, Affiliate = Some (Export a')\<rparr>
        in id_affiliate (NewAffiliate i) = i
           \<and> fst (WithAffiliate i f c) = c\<lparr>affiliates := (affiliates c)(i \<mapsto> a')\<rparr>
           \<and> emitted (snd (WithAffiliate i f c)) = [n]
           \<and> delivered (snd (WithAffiliate i f c)) = map (\<lambda>s. (s, n)) (subscriptions c))"
  by (simp add: WithAffiliate_def notify_eq ClearChanged_def IsChanged_def NewAffiliate_def
      no_log_def Let_def split: option.split)

theorem WithAffiliate_spec_witness:
  "emitted (snd (WithAffiliate ''a'' touch c0)) =
     [\<lparr>AffiliateID = ''a'',
       Affiliate = Some \<lparr>ID = ''a'', Endpoints = [Address ''10.0.0.1'', Name ''n'']\<rparr>\<rparr>]
   \<and> emitted (snd (WithAffiliate ''a'' (\<lambda>a. a) c0)) = []
   \<and> emitted (snd (WithAffiliate ''z'' (\<lambda>a. a) c0)) =
     [\<lparr>AffiliateID = ''z'', Affiliate = Some \<lparr>ID = ''z'', Endpoints = []\<rparr>\<rparr>]
   \<and> delivered (snd (WithAffiliate ''z'' (\<lambda>a. a) c0)) =
     [(0, \<lparr>AffiliateID = ''z'', Affiliate = Some \<lparr>ID = ''z'', Endpoints = []\<rparr>\<rparr>),
      (1, \<lparr>AffiliateID = ''z'', Affiliate = Some \<lparr>ID = ''z'', Endpoints = []\<rparr>\<rparr>)]"
  using WithAffiliate_spec [where c = c0 and i = "''a''" and f = touch]
    WithAffiliate_spec [where c = c0 and i = "''a''" and f = "\<lambda>a. a"]
    WithAffiliate_spec [where c = c0 and i = "''z''" and f = "\<lambda>a. a"]
  by (simp add: c0_def a0_def touch_def Export_def NewAffiliate_def Let_def)

section \<open>Properties of List\<close>

lemma List_loop_map:
  "List_loop m ks acc = acc @ map (\<lambda>k. Export (the (m k))) (filter (\<lambda>k. m k \<noteq> None) ks)"
  by (induction ks arbitrary: acc) (auto split: option.split)

lemma range_order_filter:
  "range_order m ks \<Longrightarrow> filter (\<lambda>k. m k \<noteq> None) ks = ks"
  by (auto simp: range_order_def filter_id_conv)

lemma List_range:
  "range_order (affiliates c) ks \<Longrightarrow> List ks c = map (\<lambda>k. Export (the (affiliates c k))) ks"
  using range_order_filter [of "affiliates c" ks] by (simp add: List_def List_loop_map)

lemma range_order_card:
  "range_order m ks \<Longrightarrow> length ks = card (dom m)"
  by (metis distinct_card range_order_def)

lemma range_order_mset:
  "range_order m ks \<Longrightarrow> mset ks = mset_set (dom m)"
  by (metis mset_set_set range_order_def)

text \<open>
  Claim C6. For every order \<open>ks\<close> in which the map may be visited, \<^verbatim>\<open>List()\<close> returns as
  many elements as the map has affiliates; its element at position \<open>j\<close> is the export of
  the affiliate under the \<open>j\<close>-th key, and the keys are distinct; as a multiset the result
  is the exports of the affiliates of the map, whatever the order.
\<close>

theorem List_snapshot:
  assumes "range_order (affiliates c) ks"
  shows "length (List ks c) = card (dom (affiliates c))
    \<and> (\<forall>j < length ks. \<exists>a. affiliates c (ks ! j) = Some a \<and> List ks c ! j = Export a)
    \<and> distinct ks
    \<and> mset (List ks c) =
        image_mset (\<lambda>k. Export (the (affiliates c k))) (mset_set (dom (affiliates c)))"
proof -
  have l: "List ks c = map (\<lambda>k. Export (the (affiliates c k))) ks"
    using assms by (rule List_range)
  have "length (List ks c) = card (dom (affiliates c))"
    using assms by (simp add: l range_order_card)
  moreover have "\<forall>j < length ks. \<exists>a. affiliates c (ks ! j) = Some a \<and> List ks c ! j = Export a"
  proof (intro allI impI)
    fix j assume j: "j < length ks"
    then have "ks ! j \<in> dom (affiliates c)"
      using assms by (metis nth_mem range_order_def)
    then obtain a where "affiliates c (ks ! j) = Some a" by blast
    then show "\<exists>a. affiliates c (ks ! j) = Some a \<and> List ks c ! j = Export a"
      using j by (simp add: l)
  qed
  moreover have "distinct ks" using assms by (simp add: range_order_def)
  moreover have "mset (List ks c) =
      image_mset (\<lambda>k. Export (the (affiliates c k))) (mset_set (dom (affiliates c)))"
    using assms by (simp add: l range_order_mset)
  ultimately show ?thesis by blast
qed

theorem List_snapshot_witness:
  "range_order (affiliates c0) [''b'', ''a''] \<and> length (List [''b'', ''a''] c0) = 2
   \<and> List [''b'', ''a''] c0 ! 1 = \<lparr>ID = ''a'', Endpoints = [Address ''10.0.0.1'']\<rparr>"
proof -
  have r: "range_order (affiliates c0) [''b'', ''a'']"
    by (simp add: range_order_def c0_def)
  have d: "card (dom (affiliates c0)) = 2" by (simp add: c0_def)
  have j: "(1::nat) < length [''b'', ''a'']" by simp
  from List_snapshot [OF r] j
  have "\<exists>a. affiliates c0 ([''b'', ''a''] ! 1) = Some a \<and> List [''b'', ''a''] c0 ! 1 = Export a"
    by blast
  then have "List [''b'', ''a''] c0 ! 1 = \<lparr>ID = ''a'', Endpoints = [Address ''10.0.0.1'']\<rparr>"
    by (auto simp: c0_def a0_def Export_def)
  then show ?thesis using r d List_snapshot [OF r] by simp
qed

lemma List_mset:
  "range_order (affiliates c) ks \<Longrightarrow>
   mset (List ks c) = image_mset (\<lambda>k. Export (the (affiliates c k))) (mset_set (dom (affiliates c)))"
  by (simp add: List_range range_order_mset)

section \<open>Properties of DeleteAffiliate\<close>

lemma range_order_delete:
  assumes r: "range_order m ks" and r': "range_order (m(i := None)) ks'" and a: "m i = Some a"
  shows "i \<notin> set ks' \<and> mset ks = add_mset i (mset ks')"
proof -
  have i: "i \<notin> set ks'" using r' by (auto simp: range_order_def)
  have fin: "finite (dom m)" using r by (metis List.finite_set range_order_def)
  have "dom m = insert i (dom (m(i := None)))" using a by auto
  then have "mset_set (dom m) = add_mset i (mset_set (dom (m(i := None))))"
    using fin by (metis Diff_iff dom_fun_upd finite_Diff insertI1 mset_set.insert)
  then show ?thesis using i r r' by (simp add: range_order_mset)
qed

text \<open>
  Claim C3. \<^verbatim>\<open>DeleteAffiliate(id)\<close> on a present id removes the entry of the id and
  nothing else, and hands exactly one notification to \<^verbatim>\<open>notify\<close>, with the id and no
  \<open>Affiliate\<close> field; a \<^verbatim>\<open>List()\<close> after it does not visit the id, returns the exports of
  the other affiliates, one element less than a \<^verbatim>\<open>List()\<close> before it (the export of the
  deleted affiliate), and, when every affiliate is stored under its own id, no export
  with the id. On an absent id the cluster is returned as it was and nothing is sent.
\<close>

theorem DeleteAffiliate_spec:
  "case affiliates c i of
     Some a \<Rightarrow>
       affiliates (fst (DeleteAffiliate i c)) = (affiliates c)(i := None)
       \<and> subscriptions (fst (DeleteAffiliate i c)) = subscriptions c
       \<and> id_cluster (fst (DeleteAffiliate i c)) = id_cluster c
       \<and> emitted (snd (DeleteAffiliate i c)) = [\<lparr>AffiliateID = i, Affiliate = None\<rparr>]
       \<and> delivered (snd (DeleteAffiliate i c)) =
           map (\<lambda>s. (s, \<lparr>AffiliateID = i, Affiliate = None\<rparr>)) (subscriptions c)
       \<and> (\<forall>ks'. range_order (affiliates (fst (DeleteAffiliate i c))) ks' \<longrightarrow>
             i \<notin> set ks'
             \<and> List ks' (fst (DeleteAffiliate i c)) = map (\<lambda>k. Export (the (affiliates c k))) ks'
             \<and> (\<forall>ks. range_order (affiliates c) ks \<longrightarrow>
                   mset (List ks c) = add_mset (Export a) (mset (List ks' (fst (DeleteAffiliate i c)))))
             \<and> ((\<forall>k b. affiliates c k = Some b \<longrightarrow> id_affiliate b = k) \<longrightarrow>
                   (\<forall>e \<in> set (List ks' (fst (DeleteAffiliate i c))). ID e \<noteq> i)))
   | None \<Rightarrow> DeleteAffiliate i c = (c, ([], []))"
proof (cases "affiliates c i")
  case None
  then show ?thesis by (simp add: DeleteAffiliate_def no_log_def)
next
  case (Some a)
  let ?c' = "c\<lparr>affiliates := (affiliates c)(i := None)\<rparr>"
  have D: "DeleteAffiliate i c =
      (?c', ([\<lparr>AffiliateID = i, Affiliate = None\<rparr>],
             map (\<lambda>s. (s, \<lparr>AffiliateID = i, Affiliate = None\<rparr>)) (subscriptions c)))"
    using Some by (simp add: DeleteAffiliate_def notify_eq)
  have lists: "\<forall>ks'. range_order (affiliates ?c') ks' \<longrightarrow>
      i \<notin> set ks'
      \<and> List ks' ?c' = map (\<lambda>k. Export (the (affiliates c k))) ks'
      \<and> (\<forall>ks. range_order (affiliates c) ks \<longrightarrow>
            mset (List ks c) = add_mset (Export a) (mset (List ks' ?c')))
      \<and> ((\<forall>k b. affiliates c k = Some b \<longrightarrow> id_affiliate b = k) \<longrightarrow>
            (\<forall>e \<in> set (List ks' ?c'). ID e \<noteq> i))"
  proof (intro allI impI)
    fix ks' assume r': "range_order (affiliates ?c') ks'"
    then have r'': "range_order ((affiliates c)(i := None)) ks'" by simp
    then have i: "i \<notin> set ks'" by (auto simp: range_order_def)
    have sub: "set ks' \<subseteq> dom (affiliates c)"
      using r'' by (auto simp: range_order_def split: if_splits)
    have l: "List ks' ?c' = map (\<lambda>k. Export (the (affiliates c k))) ks'"
      using i by (simp add: List_range [OF r'] cong: map_cong)
    have m: "\<forall>ks. range_order (affiliates c) ks \<longrightarrow>
        mset (List ks c) = add_mset (Export a) (mset (List ks' ?c'))"
    proof (intro allI impI)
      fix ks assume r: "range_order (affiliates c) ks"
      from range_order_delete [OF r r'' Some]
      have "mset ks = add_mset i (mset ks')" by simp
      then have "image_mset (\<lambda>k. Export (the (affiliates c k))) (mset ks) =
          add_mset (Export a) (image_mset (\<lambda>k. Export (the (affiliates c k))) (mset ks'))"
        using Some by simp
      then show "mset (List ks c) = add_mset (Export a) (mset (List ks' ?c'))"
        by (simp add: List_range [OF r] l)
    qed
    have keyed: "(\<forall>k b. affiliates c k = Some b \<longrightarrow> id_affiliate b = k) \<longrightarrow>
        (\<forall>e \<in> set (List ks' ?c'). ID e \<noteq> i)"
    proof (intro impI ballI)
      fix e assume k: "\<forall>k b. affiliates c k = Some b \<longrightarrow> id_affiliate b = k"
        and e: "e \<in> set (List ks' ?c')"
      then obtain k where kk: "k \<in> set ks'" and ek: "e = Export (the (affiliates c k))"
        by (auto simp: l)
      from kk sub obtain b where b: "affiliates c k = Some b" by blast
      with k have "id_affiliate b = k" by blast
      then have "ID e = k" using ek b by (simp add: Export_def)
      with kk i show "ID e \<noteq> i" by auto
    qed
    show "i \<notin> set ks'
      \<and> List ks' ?c' = map (\<lambda>k. Export (the (affiliates c k))) ks'
      \<and> (\<forall>ks. range_order (affiliates c) ks \<longrightarrow>
            mset (List ks c) = add_mset (Export a) (mset (List ks' ?c')))
      \<and> ((\<forall>k b. affiliates c k = Some b \<longrightarrow> id_affiliate b = k) \<longrightarrow>
            (\<forall>e \<in> set (List ks' ?c'). ID e \<noteq> i))"
      using i l m keyed by blast
  qed
  show ?thesis
    unfolding Some option.case D fst_conv snd_conv
    using lists by simp
qed

theorem DeleteAffiliate_spec_witness:
  "affiliates c0 ''a'' = Some a0
   \<and> emitted (snd (DeleteAffiliate ''a'' c0)) = [\<lparr>AffiliateID = ''a'', Affiliate = None\<rparr>]
   \<and> delivered (snd (DeleteAffiliate ''a'' c0)) =
       [(0, \<lparr>AffiliateID = ''a'', Affiliate = None\<rparr>), (1, \<lparr>AffiliateID = ''a'', Affiliate = None\<rparr>)]
   \<and> range_order (affiliates (fst (DeleteAffiliate ''a'' c0))) [''b'']
   \<and> List [''b''] (fst (DeleteAffiliate ''a'' c0)) = [\<lparr>ID = ''b'', Endpoints = []\<rparr>]
   \<and> range_order (affiliates c0) [''a'', ''b'']
   \<and> mset (List [''a'', ''b''] c0) =
       add_mset (Export a0) (mset (List [''b''] (fst (DeleteAffiliate ''a'' c0))))
   \<and> ''a'' \<notin> ID ` set (List [''b''] (fst (DeleteAffiliate ''a'' c0)))
   \<and> affiliates c0 ''z'' = None
   \<and> DeleteAffiliate ''z'' c0 = (c0, ([], []))"
proof -
  have a: "affiliates c0 ''a'' = Some a0" and z: "affiliates c0 ''z'' = None"
    and subs: "subscriptions c0 = [0, 1]"
    by (simp_all add: c0_def)
  have r: "range_order (affiliates c0) [''a'', ''b'']"
    by (simp add: range_order_def c0_def) auto
  have keyed: "\<forall>k b. affiliates c0 k = Some b \<longrightarrow> id_affiliate b = k"
    by (auto simp: c0_def a0_def NewAffiliate_def split: if_splits)
  note t = DeleteAffiliate_spec [where c = c0 and i = "''a''", unfolded a option.case]
  note u = DeleteAffiliate_spec [where c = c0 and i = "''z''", unfolded z option.case]
  from t have m: "affiliates (fst (DeleteAffiliate ''a'' c0)) = (affiliates c0)(''a'' := None)"
    by blast
  have r': "range_order (affiliates (fst (DeleteAffiliate ''a'' c0))) [''b'']"
    unfolding m by (simp add: range_order_def c0_def)
  from t r' have "List [''b''] (fst (DeleteAffiliate ''a'' c0)) =
      map (\<lambda>k. Export (the (affiliates c0 k))) [''b'']"
    by blast
  then have l: "List [''b''] (fst (DeleteAffiliate ''a'' c0)) = [\<lparr>ID = ''b'', Endpoints = []\<rparr>]"
    by (simp add: c0_def Export_def NewAffiliate_def)
  from t have e: "emitted (snd (DeleteAffiliate ''a'' c0)) = [\<lparr>AffiliateID = ''a'', Affiliate = None\<rparr>]
     \<and> delivered (snd (DeleteAffiliate ''a'' c0)) =
           map (\<lambda>s. (s, \<lparr>AffiliateID = ''a'', Affiliate = None\<rparr>)) (subscriptions c0)"
    by blast
  from t r' r have ms: "mset (List [''a'', ''b''] c0) =
      add_mset (Export a0) (mset (List [''b''] (fst (DeleteAffiliate ''a'' c0))))"
    by blast
  from t r' keyed have "\<forall>e \<in> set (List [''b''] (fst (DeleteAffiliate ''a'' c0))). ID e \<noteq> ''a''"
    by blast
  then have ni: "''a'' \<notin> ID ` set (List [''b''] (fst (DeleteAffiliate ''a'' c0)))"
    by auto
  show ?thesis using a z r r' l e ms ni u by (simp add: subs)
qed

section \<open>Properties of Subscribe\<close>

lemma Subscribe_loop_List_loop:
  "Subscribe_loop m ks acc = List_loop m ks acc"
  by (induction ks arbitrary: acc) (auto split: option.split)

lemma Subscribe_eq:
  "Subscribe this ks c_h h c =
     ((List ks c, length h),
      h @ [\<lparr>cluster = this, errCh = \<lparr>capacity = 1, queue = []\<rparr>, ch = c_h\<rparr>],
      c\<lparr>subscriptions := subscriptions c @ [length h]\<rparr>)"
  by (simp add: Subscribe_def Subscribe_loop_List_loop List_def alloc_def make_chan_def)

text \<open>
  Claim C4. \<^verbatim>\<open>Subscribe(ch)\<close> returns the snapshot that \<^verbatim>\<open>List()\<close> returns for the same
  visiting order: one export for each affiliate of the map, the same multiset as a
  \<^verbatim>\<open>List()\<close> in any other order. It appends one address to the subscription slice and
  returns that address; the address is new (nothing was stored there, and it is not in
  the slice when the slice holds addresses of stored objects), the object stored there
  has the caller's channel, the address of the cluster as back-reference and an empty
  error channel of capacity 1; the objects stored before and the affiliates are unchanged.
\<close>

theorem Subscribe_spec:
  "fst (fst (Subscribe this ks c_h h c)) = List ks c
   \<and> (\<forall>ks'. range_order (affiliates c) ks \<longrightarrow> range_order (affiliates c) ks' \<longrightarrow>
         length (fst (fst (Subscribe this ks c_h h c))) = card (dom (affiliates c))
         \<and> mset (fst (fst (Subscribe this ks c_h h c))) = mset (List ks' c))
   \<and> subscriptions (snd (snd (Subscribe this ks c_h h c))) =
       subscriptions c @ [snd (fst (Subscribe this ks c_h h c))]
   \<and> affiliates (snd (snd (Subscribe this ks c_h h c))) = affiliates c
   \<and> id_cluster (snd (snd (Subscribe this ks c_h h c))) = id_cluster c
   \<and> deref (fst (snd (Subscribe this ks c_h h c))) (snd (fst (Subscribe this ks c_h h c))) =
       Some \<lparr>cluster = this, errCh = \<lparr>capacity = 1, queue = []\<rparr>, ch = c_h\<rparr>
   \<and> deref h (snd (fst (Subscribe this ks c_h h c))) = None
   \<and> (\<forall>p. p \<noteq> snd (fst (Subscribe this ks c_h h c)) \<longrightarrow>
         deref (fst (snd (Subscribe this ks c_h h c))) p = deref h p)
   \<and> ((\<forall>p \<in> set (subscriptions c). deref h p \<noteq> None) \<longrightarrow>
         snd (fst (Subscribe this ks c_h h c)) \<notin> set (subscriptions c))"
proof -
  have snap: "\<forall>ks'. range_order (affiliates c) ks \<longrightarrow> range_order (affiliates c) ks' \<longrightarrow>
      length (List ks c) = card (dom (affiliates c)) \<and> mset (List ks c) = mset (List ks' c)"
    by (simp add: List_mset) (simp add: List_range range_order_card)
  have new: "deref h (length h) = None" by (simp add: deref_def)
  have old: "\<forall>p. p \<noteq> length h \<longrightarrow>
      deref (h @ [\<lparr>cluster = this, errCh = \<lparr>capacity = 1, queue = []\<rparr>, ch = c_h\<rparr>]) p = deref h p"
    by (auto simp: deref_def nth_append)
  have fresh: "(\<forall>p \<in> set (subscriptions c). deref h p \<noteq> None) \<longrightarrow> length h \<notin> set (subscriptions c)"
    using new by blast
  have obj: "deref (h @ [\<lparr>cluster = this, errCh = \<lparr>capacity = 1, queue = []\<rparr>, ch = c_h\<rparr>]) (length h) =
      Some \<lparr>cluster = this, errCh = \<lparr>capacity = 1, queue = []\<rparr>, ch = c_h\<rparr>"
    by (simp add: deref_def)
  show ?thesis
    unfolding Subscribe_eq fst_conv snd_conv
    using snap new old fresh obj by simp
qed

theorem Subscribe_spec_witness:
  "range_order (affiliates c0) [''a'', ''b'']
   \<and> range_order (affiliates c0) [''b'', ''a'']
   \<and> length (fst (fst (Subscribe 100 [''a'', ''b''] 7 h0 c0))) = 2
   \<and> mset (fst (fst (Subscribe 100 [''a'', ''b''] 7 h0 c0))) = mset (List [''b'', ''a''] c0)
   \<and> snd (fst (Subscribe 100 [''a'', ''b''] 7 h0 c0)) = 2
   \<and> subscriptions (snd (snd (Subscribe 100 [''a'', ''b''] 7 h0 c0))) = [0, 1, 2]
   \<and> deref (fst (snd (Subscribe 100 [''a'', ''b''] 7 h0 c0))) 2 =
        Some \<lparr>cluster = 100, errCh = \<lparr>capacity = 1, queue = []\<rparr>, ch = 7\<rparr>
   \<and> deref (fst (snd (Subscribe 100 [''a'', ''b''] 7 h0 c0))) 1 = deref h0 1
   \<and> deref h0 0 \<noteq> None \<and> deref h0 1 \<noteq> None
   \<and> 2 \<notin> set (subscriptions c0)"
proof -
  have r: "range_order (affiliates c0) [''a'', ''b'']"
    by (simp add: range_order_def c0_def) auto
  have r': "range_order (affiliates c0) [''b'', ''a'']"
    by (simp add: range_order_def c0_def)
  have d: "card (dom (affiliates c0)) = 2" by (simp add: c0_def)
  have s: "snd (fst (Subscribe 100 [''a'', ''b''] 7 h0 c0)) = 2"
    by (simp add: Subscribe_def alloc_def h0_def)
  have subs: "subscriptions c0 = [0, 1]" by (simp add: c0_def)
  have al: "deref h0 0 \<noteq> None \<and> deref h0 1 \<noteq> None" by (simp add: deref_def h0_def)
  then have all: "\<forall>p \<in> set (subscriptions c0). deref h0 p \<noteq> None" by (simp add: subs)
  note t = Subscribe_spec [where this = 100 and ks = "[''a'', ''b'']" and c_h = 7 and h = h0 and c = c0]
  from t r r' have 1: "length (fst (fst (Subscribe 100 [''a'', ''b''] 7 h0 c0))) = card (dom (affiliates c0))
      \<and> mset (fst (fst (Subscribe 100 [''a'', ''b''] 7 h0 c0))) = mset (List [''b'', ''a''] c0)"
    by blast
  from t have 2: "subscriptions (snd (snd (Subscribe 100 [''a'', ''b''] 7 h0 c0))) =
      subscriptions c0 @ [snd (fst (Subscribe 100 [''a'', ''b''] 7 h0 c0))]"
    by blast
  from t have 3: "deref (fst (snd (Subscribe 100 [''a'', ''b''] 7 h0 c0)))
        (snd (fst (Subscribe 100 [''a'', ''b''] 7 h0 c0))) =
      Some \<lparr>cluster = 100, errCh = \<lparr>capacity = 1, queue = []\<rparr>, ch = 7\<rparr>"
    by blast
  from t have "\<forall>p. p \<noteq> snd (fst (Subscribe 100 [''a'', ''b''] 7 h0 c0)) \<longrightarrow>
      deref (fst (snd (Subscribe 100 [''a'', ''b''] 7 h0 c0))) p = deref h0 p"
    by blast
  then have 4: "deref (fst (snd (Subscribe 100 [''a'', ''b''] 7 h0 c0))) 1 = deref h0 1"
    by (simp add: s)
  from t all have 5: "snd (fst (Subscribe 100 [''a'', ''b''] 7 h0 c0)) \<notin> set (subscriptions c0)"
    by blast
  show ?thesis using r r' 1 2 3 4 5 al by (simp add: s d subs)
qed

text \<open>
  Run one after the other, \<^verbatim>\<open>Subscribe\<close> and a later \<^verbatim>\<open>notify\<close> hand the new
  subscription every notification of that \<^verbatim>\<open>notify\<close>, in order.
\<close>

lemma Subscribe_then_notify:
  assumes "subscriptions_ok h c"
  shows "map snd (filter (\<lambda>d. fst d = snd (fst (Subscribe this ks c_h h c)))
           (delivered (snd (notify (snd (snd (Subscribe this ks c_h h c))) ns)))) = ns"
proof -
  have "\<forall>p \<in> set (subscriptions c). p < length h"
    using assms by (auto simp: subscriptions_ok_def list_all_iff deref_def split: if_splits)
  then have d: "distinct (subscriptions c @ [length h])"
    using assms by (auto simp: subscriptions_ok_def)
  have m: "length h \<in> set (subscriptions c @ [length h])" by simp
  have "map snd (filter (\<lambda>d. fst d = length h)
      (concat (map (\<lambda>n. map (\<lambda>s. (s, n)) (subscriptions c @ [length h])) ns))) = ns"
    using d m by (rule deliveries_to_distinct)
  then show ?thesis
    unfolding Subscribe_eq notify_eq fst_conv snd_conv by simp
qed

section \<open>Properties of unsubscribe\<close>

lemma mset_butlast_last:
  "ys \<noteq> [] \<Longrightarrow> mset (butlast ys) = mset ys - {#last ys#}"
proof -
  assume "ys \<noteq> []"
  then have "mset ys = mset (butlast ys @ [last ys])" by simp
  then show ?thesis by simp
qed

lemma swap_remove_mset:
  assumes "i < length xs"
  shows "mset (take (length xs - 1) (xs[i := xs ! (length xs - 1)])) = mset xs - {#xs ! i#}"
proof -
  define ys where "ys = xs[i := xs ! (length xs - 1)]"
  have len: "length ys = length xs" by (simp add: ys_def)
  have ne: "ys \<noteq> []" using assms len by auto
  have t: "take (length xs - 1) ys = butlast ys"
    by (simp add: butlast_conv_take len)
  have l: "last ys = xs ! (length xs - 1)"
    using assms ne by (simp add: last_conv_nth len) (simp add: ys_def nth_list_update)
  have m: "mset ys = add_mset (xs ! (length xs - 1)) (mset xs - {#xs ! i#})"
    using assms by (simp add: ys_def mset_update)
  show ?thesis
    unfolding ys_def [symmetric] t by (simp add: mset_butlast_last [OF ne] l m)
qed

lemma unsubscribe_loop_absent:
  "s \<notin> set (drop i subs) \<Longrightarrow> unsubscribe_loop subs s i = subs"
proof (induction subs s i rule: unsubscribe_loop.induct)
  case (1 subs s i)
  show ?case
  proof (cases "i < length subs")
    case True
    then have d: "drop i subs = subs ! i # drop (Suc i) subs"
      by (simp add: Cons_nth_drop_Suc)
    with "1.prems" have ne: "subs ! i \<noteq> s" and rest: "s \<notin> set (drop (Suc i) subs)"
      by auto
    from "1.IH" [OF True ne] rest have "unsubscribe_loop subs s (Suc i) = subs" by simp
    with True ne show ?thesis by (subst unsubscribe_loop.simps) simp
  next
    case False
    then show ?thesis by (subst unsubscribe_loop.simps) simp
  qed
qed

lemma unsubscribe_loop_present:
  "s \<in> set (drop i subs) \<Longrightarrow> mset (unsubscribe_loop subs s i) = mset subs - {#s#}"
proof (induction subs s i rule: unsubscribe_loop.induct)
  case (1 subs s i)
  show ?case
  proof (cases "i < length subs")
    case True
    then have d: "drop i subs = subs ! i # drop (Suc i) subs"
      by (simp add: Cons_nth_drop_Suc)
    show ?thesis
    proof (cases "subs ! i = s")
      case eq: True
      have "unsubscribe_loop subs s i = take (length subs - 1) (subs[i := subs ! (length subs - 1)])"
        using True eq by (subst unsubscribe_loop.simps) simp
      then show ?thesis using swap_remove_mset [OF True] eq by simp
    next
      case ne: False
      with "1.prems" d have rest: "s \<in> set (drop (Suc i) subs)" by auto
      from "1.IH" [OF True ne] rest
      have "mset (unsubscribe_loop subs s (Suc i)) = mset subs - {#s#}" by simp
      with True ne show ?thesis by (subst unsubscribe_loop.simps) simp
    qed
  next
    case False
    with "1.prems" show ?thesis by simp
  qed
qed

lemma unsubscribe_absent:
  "s \<notin> set (subscriptions c) \<Longrightarrow> unsubscribe s c = c"
  by (simp add: unsubscribe_def unsubscribe_loop_absent)

lemma unsubscribe_mset:
  "mset (subscriptions (unsubscribe s c)) = mset (subscriptions c) - {#s#}"
proof (cases "s \<in> set (subscriptions c)")
  case True
  then show ?thesis by (simp add: unsubscribe_def unsubscribe_loop_present)
next
  case False
  then show ?thesis by (simp add: unsubscribe_absent)
qed

lemma distinct_mset_diff:
  assumes "distinct xs" and "mset ys = mset xs - {#s#}"
  shows "distinct ys \<and> set ys = set xs - {s}"
  by (metis assms(1,2) distinct_remove1 mset_eq_imp_distinct_iff
    mset_eq_setD mset_remove1 set_remove1_eq)

text \<open>
  Claim C7. In a cluster whose subscription slice has distinct entries, \<^verbatim>\<open>unsubscribe(s)\<close>
  leaves a slice without \<open>s\<close> that holds the other subscriptions, all of them and
  nothing else; a later \<^verbatim>\<open>notify\<close> delivers nothing to \<open>s\<close> and still delivers every
  notification to each of the others; a second \<^verbatim>\<open>unsubscribe(s)\<close> changes nothing, nor
  does \<^verbatim>\<open>unsubscribe\<close> of a subscription that is not in the slice. The affiliates are
  not touched.
\<close>

theorem unsubscribe_spec:
  assumes "distinct (subscriptions c)"
  shows "s \<notin> set (subscriptions (unsubscribe s c))
    \<and> set (subscriptions (unsubscribe s c)) = set (subscriptions c) - {s}
    \<and> distinct (subscriptions (unsubscribe s c))
    \<and> affiliates (unsubscribe s c) = affiliates c
    \<and> id_cluster (unsubscribe s c) = id_cluster c
    \<and> (\<forall>ns. s \<notin> fst ` set (delivered (snd (notify (unsubscribe s c) ns))))
    \<and> (\<forall>ns s'. s' \<in> set (subscriptions c) \<longrightarrow> s' \<noteq> s \<longrightarrow>
          map snd (filter (\<lambda>d. fst d = s') (delivered (snd (notify (unsubscribe s c) ns)))) = ns)
    \<and> unsubscribe s (unsubscribe s c) = unsubscribe s c
    \<and> (s \<notin> set (subscriptions c) \<longrightarrow> unsubscribe s c = c)"
proof -
  let ?c' = "unsubscribe s c"
  have ds: "distinct (subscriptions ?c') \<and> set (subscriptions ?c') = set (subscriptions c) - {s}"
    using assms unsubscribe_mset [of s c] by (rule distinct_mset_diff)
  then have gone: "s \<notin> set (subscriptions ?c')" by simp
  have frame: "affiliates ?c' = affiliates c \<and> id_cluster ?c' = id_cluster c"
    by (simp add: unsubscribe_def)
  have nodeliv: "\<forall>ns. s \<notin> fst ` set (delivered (snd (notify ?c' ns)))"
    using gone by (auto simp: notify_eq)
  have others: "\<forall>ns s'. s' \<in> set (subscriptions c) \<longrightarrow> s' \<noteq> s \<longrightarrow>
      map snd (filter (\<lambda>d. fst d = s') (delivered (snd (notify ?c' ns)))) = ns"
    using ds by (simp add: notify_eq deliveries_to_distinct)
  have again: "unsubscribe s ?c' = ?c'"
    using gone by (rule unsubscribe_absent)
  show ?thesis
    using ds gone frame nodeliv others again unsubscribe_absent [of s c] by blast
qed

theorem unsubscribe_spec_witness:
  "distinct (subscriptions c1)
   \<and> 4 \<notin> set (subscriptions (unsubscribe 4 c1))
   \<and> set (subscriptions (unsubscribe 4 c1)) = {7, 9}
   \<and> unsubscribe 4 (unsubscribe 4 c1) = unsubscribe 4 c1
   \<and> 5 \<notin> set (subscriptions c1) \<and> unsubscribe 5 c1 = c1
   \<and> 9 \<in> set (subscriptions c1)
   \<and> map snd (filter (\<lambda>d. fst d = 9) (delivered (snd (notify (unsubscribe 4 c1) [deletion ''a''])))) =
       [deletion ''a'']"
proof -
  have d: "distinct (subscriptions c1)" by (simp add: c1_def)
  have s: "set (subscriptions c1) - {4} = {7, 9}" by (auto simp: c1_def)
  have n: "5 \<notin> set (subscriptions c1)" by (simp add: c1_def)
  have m: "9 \<in> set (subscriptions c1)" by (simp add: c1_def)
  note t = unsubscribe_spec [OF d, of 4]
  note u = unsubscribe_spec [OF d, of 5]
  from t m have "map snd (filter (\<lambda>d. fst d = 9) (delivered (snd (notify (unsubscribe 4 c1) [deletion ''a''])))) =
       [deletion ''a'']" by simp
  moreover from u n have "unsubscribe 5 c1 = c1" by blast
  ultimately show ?thesis using d s n m t by simp
qed

section \<open>Properties of GarbageCollect\<close>

lemma gc_loop_None:
  "affiliates c i = None \<Longrightarrow>
   GarbageCollect_loop agc now (i # ids) c = GarbageCollect_loop agc now ids c"
  by simp

lemma gc_loop_Some:
  "affiliates c i = Some a \<Longrightarrow>
   GarbageCollect_loop agc now (i # ids) c =
     (let r = GarbageCollect_loop agc now ids
                (c\<lparr>affiliates := (affiliates c)(i := gc_entry agc now (Some a))\<rparr>)
      in (fst r,
          log_append (if gc_changed agc now a
                      then ([deletion i], map (\<lambda>s. (s, deletion i)) (subscriptions c))
                      else no_log) (snd r)))"
  by (cases "agc now a")
    (auto simp: gc_entry_def gc_remove_def gc_changed_def gc_after_def deletion_def notify_eq
      Let_def split: prod.split)

lemma gc_loop_frame:
  "subscriptions (fst (GarbageCollect_loop agc now ids c)) = subscriptions c
   \<and> id_cluster (fst (GarbageCollect_loop agc now ids c)) = id_cluster c"
proof (induction ids arbitrary: c)
  case Nil
  show ?case by simp
next
  case (Cons i ids)
  show ?case
  proof (cases "affiliates c i")
    case None
    then show ?thesis using Cons.IH [of c] by (simp only: gc_loop_None) 
  next
    case (Some a)
    show ?thesis
      using Cons.IH [of "c\<lparr>affiliates := (affiliates c)(i := gc_entry agc now (Some a))\<rparr>"]
      by (simp only: gc_loop_Some [OF Some] Let_def fst_conv) simp
  qed
qed

lemma gc_loop_affiliates:
  "distinct ids \<Longrightarrow>
   affiliates (fst (GarbageCollect_loop agc now ids c)) k =
     (if k \<in> set ids then gc_entry agc now (affiliates c k) else affiliates c k)"
proof (induction ids arbitrary: c)
  case Nil
  show ?case by simp
next
  case (Cons i ids)
  then have d: "distinct ids" and ni: "i \<notin> set ids" by simp_all
  show ?case
  proof (cases "affiliates c i")
    case None
    then show ?thesis using Cons.IH [OF d, of c] 
      by (simp only: gc_loop_None) (auto simp: gc_entry_def)
  next
    case (Some a)
    show ?thesis
      using Cons.IH [OF d, of "c\<lparr>affiliates := (affiliates c)(i := gc_entry agc now (Some a))\<rparr>"] ni Some
      by (simp only: gc_loop_Some [OF Some] Let_def fst_conv) auto
  qed
qed

lemma gc_loop_emitted:
  "distinct ids \<Longrightarrow>
   emitted (snd (GarbageCollect_loop agc now ids c)) =
     map deletion (filter (\<lambda>k. gc_notified agc now (affiliates c k)) ids)"
proof (induction ids arbitrary: c)
  case Nil
  show ?case by (simp add: no_log_def)
next
  case (Cons i ids)
  then have d: "distinct ids" and ni: "i \<notin> set ids" by simp_all
  show ?case
  proof (cases "affiliates c i")
    case None
    then show ?thesis using Cons.IH [OF d, of c]
      by (simp only: gc_loop_None) (simp add: gc_notified_def)
  next
    case (Some a)
    let ?c = "c\<lparr>affiliates := (affiliates c)(i := gc_entry agc now (Some a))\<rparr>"
    have "filter (\<lambda>k. gc_notified agc now (affiliates ?c k)) ids =
          filter (\<lambda>k. gc_notified agc now (affiliates c k)) ids"
      using ni by (intro filter_cong) auto
    then show ?thesis
      using Cons.IH [OF d, of ?c] Some
      by (simp only: gc_loop_Some [OF Some] Let_def snd_conv)
        (simp add: log_append_def no_log_def gc_notified_def)
  qed
qed

lemma gc_loop_delivered:
  "delivered (snd (GarbageCollect_loop agc now ids c)) =
     concat (map (\<lambda>n. map (\<lambda>s. (s, n)) (subscriptions c))
       (emitted (snd (GarbageCollect_loop agc now ids c))))"
proof (induction ids arbitrary: c)
  case Nil
  show ?case by (simp add: no_log_def)
next
  case (Cons i ids)
  show ?case
  proof (cases "affiliates c i")
    case None
    then show ?thesis using Cons.IH [of c] by (simp only: gc_loop_None)
  next
    case (Some a)
    show ?thesis
      using Cons.IH [of "c\<lparr>affiliates := (affiliates c)(i := gc_entry agc now (Some a))\<rparr>"]
      by (simp only: gc_loop_Some [OF Some] Let_def snd_conv)
        (simp add: log_append_def no_log_def)
  qed
qed

lemma filter_deletions:
  "distinct ids \<Longrightarrow>
   filter (\<lambda>n. AffiliateID n = k) (map deletion (filter P ids)) =
     (if k \<in> set ids \<and> P k then [deletion k] else [])"
  by (induction ids) (auto simp: deletion_def)

lemma GarbageCollect_eq:
  "GarbageCollect agc now ks c =
     (dom (affiliates (fst (GarbageCollect_loop agc now ks c))) = {},
      fst (GarbageCollect_loop agc now ks c), snd (GarbageCollect_loop agc now ks c))"
  by (simp add: GarbageCollect_def case_prod_beta)

lemma GarbageCollect_affiliates:
  "range_order (affiliates c) ks \<Longrightarrow>
   affiliates (fst (snd (GarbageCollect agc now ks c))) k = gc_entry agc now (affiliates c k)"
proof -
  assume r: "range_order (affiliates c) ks"
  then have d: "distinct ks" and s: "set ks = dom (affiliates c)"
    by (simp_all add: range_order_def)
  have "k \<notin> set ks \<Longrightarrow> affiliates c k = None" using s by auto
  then show ?thesis
    using gc_loop_affiliates [OF d, of agc now c k]
    by (auto simp: GarbageCollect_eq gc_entry_def)
qed

lemma GarbageCollect_emitted:
  "range_order (affiliates c) ks \<Longrightarrow>
   emitted (snd (snd (GarbageCollect agc now ks c))) =
     map deletion (filter (\<lambda>k. gc_notified agc now (affiliates c k)) ks)"
  using gc_loop_emitted [of ks agc now c]
  by (simp add: GarbageCollect_eq range_order_def)

lemma GarbageCollect_emitted_for:
  assumes "range_order (affiliates c) ks" and "affiliates c k = Some a"
  shows "filter (\<lambda>n. AffiliateID n = k) (emitted (snd (snd (GarbageCollect agc now ks c)))) =
     (if gc_changed agc now a then [deletion k] else [])"
proof -
  have d: "distinct ks" and k: "k \<in> set ks"
    using assms by (auto simp: range_order_def)
  show ?thesis
    using assms(2) k
    by (simp add: GarbageCollect_emitted [OF assms(1)] filter_deletions [OF d] gc_notified_def)
qed

lemma GarbageCollect_empty:
  "fst (GarbageCollect agc now ks c) =
     (dom (affiliates (fst (snd (GarbageCollect agc now ks c)))) = {})"
  by (simp add: GarbageCollect_eq)

lemma GarbageCollect_frame:
  "subscriptions (fst (snd (GarbageCollect agc now ks c))) = subscriptions c
   \<and> id_cluster (fst (snd (GarbageCollect agc now ks c))) = id_cluster c"
  using gc_loop_frame [of agc now ks c]
  by (simp add: GarbageCollect_eq)

lemma deliveries_about:
  "filter (\<lambda>d. P (snd d)) (concat (map (\<lambda>n. map (\<lambda>s. (s, n)) subs) ns)) =
     concat (map (\<lambda>n. map (\<lambda>s. (s, n)) subs) (filter P ns))"
proof (induction ns)
  case Nil
  show ?case by simp
next
  case (Cons n ns)
  have "filter (\<lambda>d. P (snd d)) (map (\<lambda>s. (s, n)) subs) =
        (if P n then map (\<lambda>s. (s, n)) subs else [])"
    by (induction subs) simp_all
  with Cons show ?case by simp
qed

lemma GarbageCollect_delivered:
  "delivered (snd (snd (GarbageCollect agc now ks c))) =
     concat (map (\<lambda>n. map (\<lambda>s. (s, n)) (subscriptions c))
       (emitted (snd (snd (GarbageCollect agc now ks c)))))"
  using gc_loop_delivered [of agc now ks c] by (simp add: GarbageCollect_eq)

lemma GarbageCollect_delivered_for:
  assumes "range_order (affiliates c) ks" and "affiliates c k = Some a"
  shows "filter (\<lambda>d. AffiliateID (snd d) = k) (delivered (snd (snd (GarbageCollect agc now ks c)))) =
     (if gc_changed agc now a then map (\<lambda>s. (s, deletion k)) (subscriptions c) else [])"
  unfolding GarbageCollect_delivered [of agc now ks c]
    deliveries_about [where P = "\<lambda>n. AffiliateID n = k"]
    GarbageCollect_emitted_for [OF assms]
  by simp

lemma Affiliate_GarbageCollect_result:
  "gc_remove (Affiliate_GarbageCollect ttl) now a = (ttl < now - lastUpdated a)
   \<and> gc_changed (Affiliate_GarbageCollect ttl) now a = (ttl < now - lastUpdated a)
   \<and> gc_after (Affiliate_GarbageCollect ttl) now a = a"
  by (simp add: gc_remove_def gc_changed_def gc_after_def Affiliate_GarbageCollect_def)

text \<open>
  Claim C2. With \<^verbatim>\<open>Affiliate.GarbageCollect\<close> as the spec describes it (removal when the
  last update is older than the expiry threshold \<open>ttl\<close>, reported as a change), and for
  every order \<open>ks\<close> in which the map may be visited, \<^verbatim>\<open>GarbageCollect(now)\<close> removes from
  the map exactly the affiliates signalled for removal; every fresher affiliate stays
  under its key as it was, and nothing is sent about it; for each removed affiliate
  exactly one notification with its id is handed to \<^verbatim>\<open>notify\<close>, it has the deletion
  shape, and it is delivered to every subscription of the cluster; there are no other
  notifications or deliveries; the result is true exactly when the map is empty after the
  sweep, that is, when every affiliate was signalled for removal.
\<close>

theorem GarbageCollect_spec:
  assumes r: "range_order (affiliates c) ks"
  shows "(\<forall>k a. affiliates c k = Some a \<longrightarrow>
            gc_remove (Affiliate_GarbageCollect ttl) now a = (ttl < now - lastUpdated a))
    \<and> (\<forall>k a. affiliates c k = Some a \<longrightarrow> gc_remove (Affiliate_GarbageCollect ttl) now a \<longrightarrow>
          affiliates (fst (snd (GarbageCollect (Affiliate_GarbageCollect ttl) now ks c))) k = None
          \<and> filter (\<lambda>n. AffiliateID n = k)
              (emitted (snd (snd (GarbageCollect (Affiliate_GarbageCollect ttl) now ks c)))) =
              [\<lparr>AffiliateID = k, Affiliate = None\<rparr>]
          \<and> filter (\<lambda>d. AffiliateID (snd d) = k)
              (delivered (snd (snd (GarbageCollect (Affiliate_GarbageCollect ttl) now ks c)))) =
              map (\<lambda>s. (s, \<lparr>AffiliateID = k, Affiliate = None\<rparr>)) (subscriptions c))
    \<and> (\<forall>k a. affiliates c k = Some a \<longrightarrow> \<not> gc_remove (Affiliate_GarbageCollect ttl) now a \<longrightarrow>
          affiliates (fst (snd (GarbageCollect (Affiliate_GarbageCollect ttl) now ks c))) k = Some a
          \<and> filter (\<lambda>n. AffiliateID n = k)
              (emitted (snd (snd (GarbageCollect (Affiliate_GarbageCollect ttl) now ks c)))) = []
          \<and> filter (\<lambda>d. AffiliateID (snd d) = k)
              (delivered (snd (snd (GarbageCollect (Affiliate_GarbageCollect ttl) now ks c)))) = [])
    \<and> (\<forall>k. affiliates c k = None \<longrightarrow>
          affiliates (fst (snd (GarbageCollect (Affiliate_GarbageCollect ttl) now ks c))) k = None)
    \<and> emitted (snd (snd (GarbageCollect (Affiliate_GarbageCollect ttl) now ks c))) =
        map (\<lambda>k. \<lparr>AffiliateID = k, Affiliate = None\<rparr>)
          (filter (\<lambda>k. case affiliates c k of None \<Rightarrow> False
                       | Some a \<Rightarrow> ttl < now - lastUpdated a) ks)
    \<and> delivered (snd (snd (GarbageCollect (Affiliate_GarbageCollect ttl) now ks c))) =
        concat (map (\<lambda>n. map (\<lambda>s. (s, n)) (subscriptions c))
          (emitted (snd (snd (GarbageCollect (Affiliate_GarbageCollect ttl) now ks c)))))
    \<and> (fst (GarbageCollect (Affiliate_GarbageCollect ttl) now ks c) \<longleftrightarrow>
          dom (affiliates (fst (snd (GarbageCollect (Affiliate_GarbageCollect ttl) now ks c)))) = {})
    \<and> (fst (GarbageCollect (Affiliate_GarbageCollect ttl) now ks c) \<longleftrightarrow>
          (\<forall>k a. affiliates c k = Some a \<longrightarrow> gc_remove (Affiliate_GarbageCollect ttl) now a))
    \<and> subscriptions (fst (snd (GarbageCollect (Affiliate_GarbageCollect ttl) now ks c))) = subscriptions c
    \<and> id_cluster (fst (snd (GarbageCollect (Affiliate_GarbageCollect ttl) now ks c))) = id_cluster c"
proof -
  let ?agc = "Affiliate_GarbageCollect ttl"
  let ?c' = "fst (snd (GarbageCollect ?agc now ks c))"
  let ?l = "snd (snd (GarbageCollect ?agc now ks c))"
  note res = Affiliate_GarbageCollect_result [of ttl now]
  have aff: "\<And>k. affiliates ?c' k = gc_entry ?agc now (affiliates c k)"
    using r by (rule GarbageCollect_affiliates)
  have sig: "\<forall>k a. affiliates c k = Some a \<longrightarrow> gc_remove ?agc now a = (ttl < now - lastUpdated a)"
    by (simp add: res)
  have removed: "\<forall>k a. affiliates c k = Some a \<longrightarrow> gc_remove ?agc now a \<longrightarrow>
      affiliates ?c' k = None
      \<and> filter (\<lambda>n. AffiliateID n = k) (emitted ?l) = [\<lparr>AffiliateID = k, Affiliate = None\<rparr>]
      \<and> filter (\<lambda>d. AffiliateID (snd d) = k) (delivered ?l) =
          map (\<lambda>s. (s, \<lparr>AffiliateID = k, Affiliate = None\<rparr>)) (subscriptions c)"
  proof (intro allI impI)
    fix k a assume a: "affiliates c k = Some a" and rm: "gc_remove ?agc now a"
    then have ch: "gc_changed ?agc now a" by (simp add: res)
    show "affiliates ?c' k = None
      \<and> filter (\<lambda>n. AffiliateID n = k) (emitted ?l) = [\<lparr>AffiliateID = k, Affiliate = None\<rparr>]
      \<and> filter (\<lambda>d. AffiliateID (snd d) = k) (delivered ?l) =
          map (\<lambda>s. (s, \<lparr>AffiliateID = k, Affiliate = None\<rparr>)) (subscriptions c)"
      using a rm ch
      by (simp add: aff gc_entry_def GarbageCollect_emitted_for [OF r a]
          GarbageCollect_delivered_for [OF r a] deletion_def)
  qed
  have kept: "\<forall>k a. affiliates c k = Some a \<longrightarrow> \<not> gc_remove ?agc now a \<longrightarrow>
      affiliates ?c' k = Some a
      \<and> filter (\<lambda>n. AffiliateID n = k) (emitted ?l) = []
      \<and> filter (\<lambda>d. AffiliateID (snd d) = k) (delivered ?l) = []"
  proof (intro allI impI)
    fix k a assume a: "affiliates c k = Some a" and nrm: "\<not> gc_remove ?agc now a"
    then have ch: "\<not> gc_changed ?agc now a" by (simp add: res)
    have af: "gc_after ?agc now a = a" by (simp add: res)
    show "affiliates ?c' k = Some a
      \<and> filter (\<lambda>n. AffiliateID n = k) (emitted ?l) = []
      \<and> filter (\<lambda>d. AffiliateID (snd d) = k) (delivered ?l) = []"
      using a nrm ch af
      by (simp add: aff gc_entry_def GarbageCollect_emitted_for [OF r a]
          GarbageCollect_delivered_for [OF r a])
  qed
  have absent: "\<forall>k. affiliates c k = None \<longrightarrow> affiliates ?c' k = None"
    by (simp add: aff gc_entry_def)
  have "(\<lambda>k. gc_notified ?agc now (affiliates c k)) =
      (\<lambda>k. case affiliates c k of None \<Rightarrow> False | Some a \<Rightarrow> ttl < now - lastUpdated a)"
    by (auto simp: gc_notified_def res split: option.split)
  then have em: "emitted ?l = map (\<lambda>k. \<lparr>AffiliateID = k, Affiliate = None\<rparr>)
      (filter (\<lambda>k. case affiliates c k of None \<Rightarrow> False
                   | Some a \<Rightarrow> ttl < now - lastUpdated a) ks)"
    using GarbageCollect_emitted [OF r, of ?agc now] by (simp add: deletion_def [abs_def])
  have dl: "delivered ?l = concat (map (\<lambda>n. map (\<lambda>s. (s, n)) (subscriptions c)) (emitted ?l))"
    by (rule GarbageCollect_delivered)
  have e1: "fst (GarbageCollect ?agc now ks c) \<longleftrightarrow> dom (affiliates ?c') = {}"
    by (rule GarbageCollect_empty)
  have "dom (affiliates ?c') = {} \<longleftrightarrow> (\<forall>k. gc_entry ?agc now (affiliates c k) = None)"
    by (auto simp: aff dom_def)
  also have "\<dots> \<longleftrightarrow> (\<forall>k a. affiliates c k = Some a \<longrightarrow> gc_remove ?agc now a)"
    by (auto simp: gc_entry_def split: option.splits if_splits)
  finally have e2: "fst (GarbageCollect ?agc now ks c) \<longleftrightarrow>
      (\<forall>k a. affiliates c k = Some a \<longrightarrow> gc_remove ?agc now a)"
    using e1 by simp
  note fr = GarbageCollect_frame [of ?agc now ks c]
  show ?thesis
    apply (intro conjI)
    using sig apply blast
    using removed apply blast
    using kept apply blast
    using absent apply blast
    using em apply blast
    using dl apply blast
    using e1 apply blast
    using e2 apply blast
    using fr apply blast
    using fr apply blast
    done
qed

theorem GarbageCollect_spec_witness:
  "range_order (affiliates c0) [''a'', ''b'']
   \<and> affiliates c0 ''b'' = Some (NewAffiliate ''b'')
   \<and> gc_remove (Affiliate_GarbageCollect 10) 12 (NewAffiliate ''b'')
   \<and> affiliates (fst (snd (GarbageCollect (Affiliate_GarbageCollect 10) 12 [''a'', ''b''] c0))) ''b'' = None
   \<and> filter (\<lambda>n. AffiliateID n = ''b'')
        (emitted (snd (snd (GarbageCollect (Affiliate_GarbageCollect 10) 12 [''a'', ''b''] c0)))) =
      [\<lparr>AffiliateID = ''b'', Affiliate = None\<rparr>]
   \<and> filter (\<lambda>d. AffiliateID (snd d) = ''b'')
        (delivered (snd (snd (GarbageCollect (Affiliate_GarbageCollect 10) 12 [''a'', ''b''] c0)))) =
      [(0, \<lparr>AffiliateID = ''b'', Affiliate = None\<rparr>), (1, \<lparr>AffiliateID = ''b'', Affiliate = None\<rparr>)]
   \<and> affiliates c0 ''a'' = Some a0
   \<and> \<not> gc_remove (Affiliate_GarbageCollect 10) 12 a0
   \<and> affiliates (fst (snd (GarbageCollect (Affiliate_GarbageCollect 10) 12 [''a'', ''b''] c0))) ''a'' = Some a0
   \<and> filter (\<lambda>d. AffiliateID (snd d) = ''a'')
        (delivered (snd (snd (GarbageCollect (Affiliate_GarbageCollect 10) 12 [''a'', ''b''] c0)))) = []
   \<and> affiliates c0 ''z'' = None
   \<and> affiliates (fst (snd (GarbageCollect (Affiliate_GarbageCollect 10) 12 [''a'', ''b''] c0))) ''z'' = None
   \<and> delivered (snd (snd (GarbageCollect (Affiliate_GarbageCollect 10) 12 [''a'', ''b''] c0))) =
      [(0, \<lparr>AffiliateID = ''b'', Affiliate = None\<rparr>), (1, \<lparr>AffiliateID = ''b'', Affiliate = None\<rparr>)]
   \<and> \<not> fst (GarbageCollect (Affiliate_GarbageCollect 10) 12 [''a'', ''b''] c0)"
proof -
  let ?G = "GarbageCollect (Affiliate_GarbageCollect 10) 12 [''a'', ''b''] c0"
  have r: "range_order (affiliates c0) [''a'', ''b'']"
    by (simp add: range_order_def c0_def) auto
  have b: "affiliates c0 ''b'' = Some (NewAffiliate ''b'')" and a: "affiliates c0 ''a'' = Some a0"
    and z: "affiliates c0 ''z'' = None" and subs: "subscriptions c0 = [0, 1]"
    by (simp_all add: c0_def)
  have rb: "gc_remove (Affiliate_GarbageCollect 10) 12 (NewAffiliate ''b'')"
    by (simp add: gc_remove_def Affiliate_GarbageCollect_def NewAffiliate_def)
  have ra: "\<not> gc_remove (Affiliate_GarbageCollect 10) 12 a0"
    by (simp add: gc_remove_def Affiliate_GarbageCollect_def a0_def)
  note t = GarbageCollect_spec [OF r, of 10 12]
  from t b rb have 1: "affiliates (fst (snd ?G)) ''b'' = None
    \<and> filter (\<lambda>n. AffiliateID n = ''b'') (emitted (snd (snd ?G))) =
        [\<lparr>AffiliateID = ''b'', Affiliate = None\<rparr>]
    \<and> filter (\<lambda>d. AffiliateID (snd d) = ''b'') (delivered (snd (snd ?G))) =
        map (\<lambda>s. (s, \<lparr>AffiliateID = ''b'', Affiliate = None\<rparr>)) (subscriptions c0)"
    by blast
  from t a ra have 2: "affiliates (fst (snd ?G)) ''a'' = Some a0
    \<and> filter (\<lambda>n. AffiliateID n = ''a'') (emitted (snd (snd ?G))) = []
    \<and> filter (\<lambda>d. AffiliateID (snd d) = ''a'') (delivered (snd (snd ?G))) = []"
    by blast
  from t z have 3: "affiliates (fst (snd ?G)) ''z'' = None" by blast
  from t a ra have 4: "\<not> fst ?G" by blast
  from t have em: "emitted (snd (snd ?G)) =
      map (\<lambda>k. \<lparr>AffiliateID = k, Affiliate = None\<rparr>)
        (filter (\<lambda>k. case affiliates c0 k of None \<Rightarrow> False
                     | Some a \<Rightarrow> 10 < 12 - lastUpdated a) [''a'', ''b''])"
    by blast
  have em': "emitted (snd (snd ?G)) = [\<lparr>AffiliateID = ''b'', Affiliate = None\<rparr>]"
    unfolding em by (simp add: c0_def a0_def NewAffiliate_def)
  from t have "delivered (snd (snd ?G)) =
      concat (map (\<lambda>n. map (\<lambda>s. (s, n)) (subscriptions c0)) (emitted (snd (snd ?G))))"
    by blast
  then have 5: "delivered (snd (snd ?G)) =
      [(0, \<lparr>AffiliateID = ''b'', Affiliate = None\<rparr>), (1, \<lparr>AffiliateID = ''b'', Affiliate = None\<rparr>)]"
    by (simp add: em' subs)
  show ?thesis using r a b z rb ra 1 2 3 4 5 by (simp add: subs)
qed

text \<open>
  Claim C9. For any \<^verbatim>\<open>Affiliate.GarbageCollect\<close>: every notification that the sweep hands
  to \<^verbatim>\<open>notify\<close>, and every notification it delivers to a subscription, has the deletion
  shape (no \<open>Affiliate\<close> field); one is sent for an affiliate, and delivered to every
  subscription of the cluster, exactly when the affiliate's own \<^verbatim>\<open>GarbageCollect\<close>
  reports a change; so for a result with \<open>remove\<close> unset and \<open>changed\<close> set, a deletion
  notification reaches every subscription for an affiliate that stays in the map and is
  in every later \<^verbatim>\<open>List()\<close>.
\<close>

theorem GarbageCollect_notifies_kept:
  assumes r: "range_order (affiliates c) ks"
  shows "(\<forall>n \<in> set (emitted (snd (snd (GarbageCollect agc now ks c)))). Affiliate n = None)
    \<and> (\<forall>d \<in> set (delivered (snd (snd (GarbageCollect agc now ks c)))). Affiliate (snd d) = None)
    \<and> delivered (snd (snd (GarbageCollect agc now ks c))) =
        concat (map (\<lambda>n. map (\<lambda>s. (s, n)) (subscriptions c))
          (emitted (snd (snd (GarbageCollect agc now ks c)))))
    \<and> (\<forall>k a. affiliates c k = Some a \<longrightarrow>
          filter (\<lambda>n. AffiliateID n = k) (emitted (snd (snd (GarbageCollect agc now ks c)))) =
            (if gc_changed agc now a then [\<lparr>AffiliateID = k, Affiliate = None\<rparr>] else []))
    \<and> (\<forall>k a. affiliates c k = Some a \<longrightarrow>
          filter (\<lambda>d. AffiliateID (snd d) = k) (delivered (snd (snd (GarbageCollect agc now ks c)))) =
            (if gc_changed agc now a
             then map (\<lambda>s. (s, \<lparr>AffiliateID = k, Affiliate = None\<rparr>)) (subscriptions c) else []))
    \<and> (\<forall>k a. affiliates c k = Some a \<longrightarrow> \<not> gc_remove agc now a \<longrightarrow> gc_changed agc now a \<longrightarrow>
          \<lparr>AffiliateID = k, Affiliate = None\<rparr> \<in> set (emitted (snd (snd (GarbageCollect agc now ks c))))
          \<and> (\<forall>s \<in> set (subscriptions c).
                (s, \<lparr>AffiliateID = k, Affiliate = None\<rparr>)
                  \<in> set (delivered (snd (snd (GarbageCollect agc now ks c)))))
          \<and> affiliates (fst (snd (GarbageCollect agc now ks c))) k = Some (gc_after agc now a)
          \<and> (\<forall>ks'. range_order (affiliates (fst (snd (GarbageCollect agc now ks c)))) ks' \<longrightarrow>
                Export (gc_after agc now a) \<in> set (List ks' (fst (snd (GarbageCollect agc now ks c))))))"
proof -
  let ?c' = "fst (snd (GarbageCollect agc now ks c))"
  let ?l = "snd (snd (GarbageCollect agc now ks c))"
  have aff: "\<And>k. affiliates ?c' k = gc_entry agc now (affiliates c k)"
    using r by (rule GarbageCollect_affiliates)
  have shape: "\<forall>n \<in> set (emitted ?l). Affiliate n = None"
    by (auto simp: GarbageCollect_emitted [OF r] deletion_def)
  have dl: "delivered ?l = concat (map (\<lambda>n. map (\<lambda>s. (s, n)) (subscriptions c)) (emitted ?l))"
    by (rule GarbageCollect_delivered)
  have dshape: "\<forall>d \<in> set (delivered ?l). Affiliate (snd d) = None"
  proof
    fix d assume "d \<in> set (delivered ?l)"
    then have "snd d \<in> set (emitted ?l)" unfolding dl by auto
    with shape show "Affiliate (snd d) = None" by blast
  qed
  have each: "\<forall>k a. affiliates c k = Some a \<longrightarrow>
      filter (\<lambda>n. AffiliateID n = k) (emitted ?l) =
        (if gc_changed agc now a then [\<lparr>AffiliateID = k, Affiliate = None\<rparr>] else [])"
    by (simp add: GarbageCollect_emitted_for [OF r] deletion_def)
  have deach: "\<forall>k a. affiliates c k = Some a \<longrightarrow>
      filter (\<lambda>d. AffiliateID (snd d) = k) (delivered ?l) =
        (if gc_changed agc now a
         then map (\<lambda>s. (s, \<lparr>AffiliateID = k, Affiliate = None\<rparr>)) (subscriptions c) else [])"
    by (simp add: GarbageCollect_delivered_for [OF r] deletion_def)
  have kept: "\<forall>k a. affiliates c k = Some a \<longrightarrow> \<not> gc_remove agc now a \<longrightarrow> gc_changed agc now a \<longrightarrow>
      \<lparr>AffiliateID = k, Affiliate = None\<rparr> \<in> set (emitted ?l)
      \<and> (\<forall>s \<in> set (subscriptions c). (s, \<lparr>AffiliateID = k, Affiliate = None\<rparr>) \<in> set (delivered ?l))
      \<and> affiliates ?c' k = Some (gc_after agc now a)
      \<and> (\<forall>ks'. range_order (affiliates ?c') ks' \<longrightarrow> Export (gc_after agc now a) \<in> set (List ks' ?c'))"
  proof (intro allI impI conjI)
    fix k a
    assume a: "affiliates c k = Some a" and nrm: "\<not> gc_remove agc now a" and ch: "gc_changed agc now a"
    have "filter (\<lambda>n. AffiliateID n = k) (emitted ?l) = [\<lparr>AffiliateID = k, Affiliate = None\<rparr>]"
      using each a ch by simp
    then have "\<lparr>AffiliateID = k, Affiliate = None\<rparr> \<in> set (filter (\<lambda>n. AffiliateID n = k) (emitted ?l))"
      by simp
    then show "\<lparr>AffiliateID = k, Affiliate = None\<rparr> \<in> set (emitted ?l)" by simp
    have df: "filter (\<lambda>d. AffiliateID (snd d) = k) (delivered ?l) =
        map (\<lambda>s. (s, \<lparr>AffiliateID = k, Affiliate = None\<rparr>)) (subscriptions c)"
      using deach a ch by simp
    show "\<forall>s \<in> set (subscriptions c). (s, \<lparr>AffiliateID = k, Affiliate = None\<rparr>) \<in> set (delivered ?l)"
    proof
      fix s assume "s \<in> set (subscriptions c)"
      then have "(s, \<lparr>AffiliateID = k, Affiliate = None\<rparr>)
          \<in> set (filter (\<lambda>d. AffiliateID (snd d) = k) (delivered ?l))"
        unfolding df by auto
      then show "(s, \<lparr>AffiliateID = k, Affiliate = None\<rparr>) \<in> set (delivered ?l)" by simp
    qed
    show k': "affiliates ?c' k = Some (gc_after agc now a)"
      using a nrm by (simp add: aff gc_entry_def)
    fix ks' assume r': "range_order (affiliates ?c') ks'"
    then have "k \<in> set ks'" using k' by (auto simp: range_order_def)
    then have "Export (the (affiliates ?c' k)) \<in> set (map (\<lambda>k. Export (the (affiliates ?c' k))) ks')"
      by (rule imageI [of k "set ks'" "\<lambda>k. Export (the (affiliates ?c' k))", simplified set_map [symmetric]])
    then show "Export (gc_after agc now a) \<in> set (List ks' ?c')"
      by (simp only: List_range [OF r'] k' option.sel)
  qed
  show ?thesis
    apply (intro conjI)
    using shape apply blast
    using dshape apply blast
    using dl apply blast
    using each apply blast
    using deach apply blast
    using kept apply blast
    done
qed

theorem GarbageCollect_notifies_kept_witness:
  "range_order (affiliates c0) [''a'', ''b'']
   \<and> affiliates c0 ''a'' = Some a0
   \<and> agc_drop 3 a0 = ((False, True), a0\<lparr>endpoints := []\<rparr>)
   \<and> \<lparr>AffiliateID = ''a'', Affiliate = None\<rparr>
        \<in> set (emitted (snd (snd (GarbageCollect agc_drop 3 [''a'', ''b''] c0))))
   \<and> 1 \<in> set (subscriptions c0)
   \<and> (1, \<lparr>AffiliateID = ''a'', Affiliate = None\<rparr>)
        \<in> set (delivered (snd (snd (GarbageCollect agc_drop 3 [''a'', ''b''] c0))))
   \<and> filter (\<lambda>d. AffiliateID (snd d) = ''a'')
        (delivered (snd (snd (GarbageCollect agc_drop 3 [''a'', ''b''] c0)))) =
      [(0, \<lparr>AffiliateID = ''a'', Affiliate = None\<rparr>), (1, \<lparr>AffiliateID = ''a'', Affiliate = None\<rparr>)]
   \<and> affiliates (fst (snd (GarbageCollect agc_drop 3 [''a'', ''b''] c0))) ''a'' =
        Some (a0\<lparr>endpoints := []\<rparr>)
   \<and> range_order (affiliates (fst (snd (GarbageCollect agc_drop 3 [''a'', ''b''] c0)))) [''a'']
   \<and> \<lparr>ID = ''a'', Endpoints = []\<rparr>
        \<in> set (List [''a''] (fst (snd (GarbageCollect agc_drop 3 [''a'', ''b''] c0))))"
proof -
  let ?c' = "fst (snd (GarbageCollect agc_drop 3 [''a'', ''b''] c0))"
  let ?l = "snd (snd (GarbageCollect agc_drop 3 [''a'', ''b''] c0))"
  have r: "range_order (affiliates c0) [''a'', ''b'']"
    by (simp add: range_order_def c0_def) auto
  have a: "affiliates c0 ''a'' = Some a0" by (simp add: c0_def)
  have b: "affiliates c0 ''b'' = Some (NewAffiliate ''b'')" by (simp add: c0_def)
  have subs: "subscriptions c0 = [0, 1]" by (simp add: c0_def)
  have m: "1 \<in> set (subscriptions c0)" by (simp add: subs)
  have g: "agc_drop 3 a0 = ((False, True), a0\<lparr>endpoints := []\<rparr>)"
    by (simp add: agc_drop_def a0_def)
  have nrm: "\<not> gc_remove agc_drop 3 a0" and ch: "gc_changed agc_drop 3 a0"
    and af: "gc_after agc_drop 3 a0 = a0\<lparr>endpoints := []\<rparr>"
    by (simp_all add: gc_remove_def gc_changed_def gc_after_def g)
  have rmb: "gc_remove agc_drop 3 (NewAffiliate ''b'')"
    by (simp add: gc_remove_def agc_drop_def NewAffiliate_def)
  have dom': "dom (affiliates ?c') = {''a''}"
    using GarbageCollect_affiliates [OF r, of agc_drop 3] a b nrm rmb
    by (auto simp: dom_def gc_entry_def c0_def split: if_splits)
  then have r': "range_order (affiliates ?c') [''a'']"
    by (auto simp: range_order_def)
  note t = GarbageCollect_notifies_kept [OF r, of agc_drop 3]
  from t a nrm ch have 1: "\<lparr>AffiliateID = ''a'', Affiliate = None\<rparr> \<in> set (emitted ?l)"
    by blast
  from t a nrm ch have 2: "affiliates ?c' ''a'' = Some (gc_after agc_drop 3 a0)"
    by blast
  from t a nrm ch r' have 3: "Export (gc_after agc_drop 3 a0) \<in> set (List [''a''] ?c')"
    by blast
  from t a nrm ch have "\<forall>s \<in> set (subscriptions c0).
      (s, \<lparr>AffiliateID = ''a'', Affiliate = None\<rparr>) \<in> set (delivered ?l)"
    by blast
  with m have 4: "(1, \<lparr>AffiliateID = ''a'', Affiliate = None\<rparr>) \<in> set (delivered ?l)"
    by blast
  from t a have "filter (\<lambda>d. AffiliateID (snd d) = ''a'') (delivered ?l) =
      (if gc_changed agc_drop 3 a0
       then map (\<lambda>s. (s, \<lparr>AffiliateID = ''a'', Affiliate = None\<rparr>)) (subscriptions c0) else [])"
    by blast
  then have 5: "filter (\<lambda>d. AffiliateID (snd d) = ''a'') (delivered ?l) =
      [(0, \<lparr>AffiliateID = ''a'', Affiliate = None\<rparr>), (1, \<lparr>AffiliateID = ''a'', Affiliate = None\<rparr>)]"
    by (simp add: ch subs)
  have e: "Export (a0\<lparr>endpoints := []\<rparr>) = \<lparr>ID = ''a'', Endpoints = []\<rparr>"
    by (simp add: Export_def a0_def)
  show ?thesis using r a g m 1 2 3 4 5 r' by (simp add: af e)
qed

section \<open>The invariant is kept\<close>

lemma NewCluster_ok: "subscriptions_ok h (NewCluster i)"
  by (simp add: subscriptions_ok_def NewCluster_def)

lemma Subscribe_ok:
  assumes "subscriptions_ok h c"
  shows "subscriptions_ok (fst (snd (Subscribe this ks c_h h c))) (snd (snd (Subscribe this ks c_h h c)))"
proof -
  have "\<forall>p \<in> set (subscriptions c). p < length h"
    using assms by (auto simp: subscriptions_ok_def list_all_iff deref_def split: if_splits)
  then show ?thesis
    using assms by (auto simp: Subscribe_eq subscriptions_ok_def list_all_iff deref_def nth_append)
qed

lemma unsubscribe_ok:
  assumes "subscriptions_ok h c"
  shows "subscriptions_ok h (unsubscribe s c)"
proof -
  have "distinct (subscriptions (unsubscribe s c))
      \<and> set (subscriptions (unsubscribe s c)) = set (subscriptions c) - {s}"
    using assms unsubscribe_mset [of s c] by (intro distinct_mset_diff) (simp_all add: subscriptions_ok_def)
  then show ?thesis using assms by (auto simp: subscriptions_ok_def list_all_iff)
qed

lemma WithAffiliate_ok:
  "subscriptions_ok h c \<Longrightarrow> subscriptions_ok h (fst (WithAffiliate i f c))"
  by (simp add: subscriptions_ok_def WithAffiliate_def notify_eq Let_def split: option.split)

lemma DeleteAffiliate_ok:
  "subscriptions_ok h c \<Longrightarrow> subscriptions_ok h (fst (DeleteAffiliate i c))"
  by (simp add: subscriptions_ok_def DeleteAffiliate_def notify_eq split: option.split)

lemma GarbageCollect_ok:
  "subscriptions_ok h c \<Longrightarrow> subscriptions_ok h (fst (snd (GarbageCollect agc now ks c)))"
  by (simp add: subscriptions_ok_def GarbageCollect_frame)

lemma alloc_ok: "subscriptions_ok h c \<Longrightarrow> subscriptions_ok (snd (alloc h s)) c"
  by (auto simp: subscriptions_ok_def list_all_iff deref_def alloc_def nth_append split: if_splits)

lemma reachable_ok: "reachable h c \<Longrightarrow> subscriptions_ok h c"
proof (induction rule: reachable.induct)
  case (r_new h i)
  show ?case by (rule NewCluster_ok)
next
  case (r_with h c i f)
  then show ?case by (simp add: WithAffiliate_ok)
next
  case (r_delete h c i)
  then show ?case by (simp add: DeleteAffiliate_ok)
next
  case (r_subscribe h c this ks c_h)
  then show ?case by (simp add: Subscribe_ok)
next
  case (r_unsubscribe h c s)
  then show ?case by (simp add: unsubscribe_ok)
next
  case (r_gc h c agc now ks)
  then show ?case by (simp add: GarbageCollect_ok)
next
  case (r_notify h c ns)
  then show ?case by (simp add: notify_eq)
next
  case (r_alloc h c s)
  then show ?case by (simp add: alloc_ok)
qed

lemma reachable_distinct: "reachable h c \<Longrightarrow> distinct (subscriptions c)"
  using reachable_ok [of h c] by (simp add: subscriptions_ok_def)

section \<open>Properties of the list handler\<close>

text \<open>
  Claim C8. The handler of \<^verbatim>\<open>GET /:cluster\<close> answers 400 without a call of the store when
  the cluster parameter is empty or the parser rejects it; when the parameter passes and
  the store returns an error that is \<^verbatim>\<open>ErrNotFound\<close> (\<^verbatim>\<open>errors.Is\<close>), it answers 404;
  when the store returns no error it answers with the nodes; and it answers with nodes
  only then.
\<close>

theorem get_cluster_responses:
  "(cl = [] \<or> uuid_Parse cl \<noteq> None \<longrightarrow>
      get_cluster uuid_Parse nodeDB_List cl = (SendStatus 400, []))
   \<and> (cl \<noteq> [] \<longrightarrow> uuid_Parse cl = None \<longrightarrow>
        (\<forall>list e. nodeDB_List cl = (list, Some e) \<longrightarrow> errors_Is e ErrNotFound \<longrightarrow>
           get_cluster uuid_Parse nodeDB_List cl = (SendStatus 404, [DB_List cl])))
   \<and> (cl \<noteq> [] \<longrightarrow> uuid_Parse cl = None \<longrightarrow>
        (\<forall>list. nodeDB_List cl = (list, None) \<longrightarrow>
           get_cluster uuid_Parse nodeDB_List cl = (JSON list, [DB_List cl])))
   \<and> (\<forall>list. fst (get_cluster uuid_Parse nodeDB_List cl) = JSON list \<longrightarrow>
         cl \<noteq> [] \<and> uuid_Parse cl = None \<and> nodeDB_List cl = (list, None))"
  by (auto simp: get_cluster_def validateClusterID_def StatusBadRequest_def StatusNotFound_def
      StatusInternalServerError_def split: option.splits prod.splits if_splits)

theorem get_cluster_responses_witness:
  "get_cluster uuid_Parse0 nodeDB_List0 [] = (SendStatus 400, [])
   \<and> uuid_Parse0 ''abc'' \<noteq> None
   \<and> get_cluster uuid_Parse0 nodeDB_List0 ''abc'' = (SendStatus 400, [])
   \<and> uuid_Parse0 ''00000000-0000-0000-0000-000000000000'' = None
   \<and> nodeDB_List0 ''00000000-0000-0000-0000-000000000000'' = ([], Some (Wrapped ''list'' ErrNotFound))
   \<and> errors_Is (Wrapped ''list'' ErrNotFound) ErrNotFound
   \<and> get_cluster uuid_Parse0 nodeDB_List0 ''00000000-0000-0000-0000-000000000000'' =
       (SendStatus 404, [DB_List ''00000000-0000-0000-0000-000000000000''])
   \<and> uuid_Parse0 ''123e4567-e89b-12d3-a456-426614174000'' = None
   \<and> nodeDB_List0 ''123e4567-e89b-12d3-a456-426614174000'' = ([''node1''], None)
   \<and> get_cluster uuid_Parse0 nodeDB_List0 ''123e4567-e89b-12d3-a456-426614174000'' =
       (JSON [''node1''], [DB_List ''123e4567-e89b-12d3-a456-426614174000''])"
proof -
  have p1: "uuid_Parse0 ''abc'' \<noteq> None" by (simp add: uuid_Parse0_def)
  have p2: "uuid_Parse0 ''00000000-0000-0000-0000-000000000000'' = None"
    by (simp add: uuid_Parse0_def)
  have p3: "uuid_Parse0 ''123e4567-e89b-12d3-a456-426614174000'' = None"
    by (simp add: uuid_Parse0_def)
  have d2: "nodeDB_List0 ''00000000-0000-0000-0000-000000000000'' = ([], Some (Wrapped ''list'' ErrNotFound))"
    by (simp add: nodeDB_List0_def)
  have d3: "nodeDB_List0 ''123e4567-e89b-12d3-a456-426614174000'' = ([''node1''], None)"
    by (simp add: nodeDB_List0_def)
  have i: "errors_Is (Wrapped ''list'' ErrNotFound) ErrNotFound" by simp
  have 0: "get_cluster uuid_Parse0 nodeDB_List0 [] = (SendStatus 400, [])"
    using get_cluster_responses [where cl = "[]" and uuid_Parse = uuid_Parse0 and nodeDB_List = nodeDB_List0] by simp
  have 1: "get_cluster uuid_Parse0 nodeDB_List0 ''abc'' = (SendStatus 400, [])"
    using get_cluster_responses [where cl = "''abc''" and uuid_Parse = uuid_Parse0 and nodeDB_List = nodeDB_List0] p1 by blast
  have 2: "get_cluster uuid_Parse0 nodeDB_List0 ''00000000-0000-0000-0000-000000000000'' =
       (SendStatus 404, [DB_List ''00000000-0000-0000-0000-000000000000''])"
    using get_cluster_responses [where cl = "''00000000-0000-0000-0000-000000000000''" and uuid_Parse = uuid_Parse0 and nodeDB_List = nodeDB_List0]
      p2 d2 i by blast
  have 3: "get_cluster uuid_Parse0 nodeDB_List0 ''123e4567-e89b-12d3-a456-426614174000'' =
       (JSON [''node1''], [DB_List ''123e4567-e89b-12d3-a456-426614174000''])"
    using get_cluster_responses [where cl = "''123e4567-e89b-12d3-a456-426614174000''" and uuid_Parse = uuid_Parse0 and nodeDB_List = nodeDB_List0]
      p3 d3 by blast
  show ?thesis using p1 p2 p3 d2 d3 i 0 1 2 3 by blast
qed

end
